theory Spec2Isabelle
  imports Main "HOL-Library.Word" "HOL-Library.Signed_Division"
begin

section \<open>Data model of package rtmpstats\<close>

text \<open>
  Go's \<^verbatim>\<open>int\<close> is taken at its width on 64-bit platforms and \<^verbatim>\<open>time.Duration\<close> is an
  \<^verbatim>\<open>int64\<close> counting nanoseconds: both are 64-bit words, so \<open>+\<close> and \<open>*\<close> wrap around
  as they do in Go, and values are read as signed numbers with \<open>sint\<close>.
  A Go slice is modelled as the list of its elements (a nil slice and an empty slice are
  both \<open>[]\<close>), a Go string as a list of bytes.
  \<^verbatim>\<open>time.Time\<close> and \<^verbatim>\<open>float64\<close> are type parameters \<open>'t\<close> and \<open>'f\<close>: no operation of the
  package looks inside them.
\<close>

type_synonym go_int = "64 word"
type_synonym Duration = "64 word"

definition Millisecond :: Duration where
  "Millisecond = 1000000"

definition Second :: Duration where
  "Second = 1000000000"

definition Minute :: Duration where
  "Minute = 60000000000"

record Client =
  ID :: string
  Address :: string
  Uptime :: Duration
  FlashVersion :: string
  PageURL :: string
  SWFURL :: string
  DroppedFrames :: go_int
  AVSync :: go_int
  Timestamp :: Duration
  Active :: bool
  Publishing :: bool
  EntriesCount :: go_int

record 'f Stream =
  Name :: string
  Uptime :: Duration
  BitrateIn :: go_int
  BitrateOut :: go_int
  BytesIn :: go_int
  BytesOut :: go_int
  BitrateVideo :: go_int
  BitrateAudio :: go_int
  NumClients :: go_int
  Publishing :: bool
  Active :: bool
  VideoWidth :: go_int
  VideoHeight :: go_int
  VideoFramerate :: go_int
  VideoCodec :: string
  VideoProfile :: string
  VideoCompat :: go_int
  VideoLevel :: 'f
  AudioCodec :: string
  AudioProfile :: string
  AudioChannels :: go_int
  AudioSampleRate :: go_int
  Clients :: "Client list"

record 'f Application =
  Name :: string
  Streams :: "'f Stream list"

record ('t, 'f) Stats =
  NGINXVersion :: string
  NGINXRTMPVersion :: string
  Compiler :: string
  Built :: 't
  PID :: go_int
  Uptime :: Duration
  Accepted :: go_int
  BitrateIn :: go_int
  BitrateOut :: go_int
  BytesIn :: go_int
  BytesOut :: go_int
  Applications :: "'f Application list"

text \<open>The zero values of the structs, as Go initialises them.\<close>

definition zero_Client :: Client where
  "zero_Client =
     \<lparr> ID = [], Address = [], Uptime = 0, FlashVersion = [], PageURL = [], SWFURL = [],
       DroppedFrames = 0, AVSync = 0, Timestamp = 0, Active = False, Publishing = False,
       EntriesCount = 0 \<rparr>"

definition zero_Stream :: "'f \<Rightarrow> 'f Stream" where
  "zero_Stream zero_float64 =
     \<lparr> Stream.Name = [], Uptime = 0, BitrateIn = 0, BitrateOut = 0, BytesIn = 0, BytesOut = 0,
       BitrateVideo = 0, BitrateAudio = 0, NumClients = 0, Publishing = False, Active = False,
       VideoWidth = 0, VideoHeight = 0, VideoFramerate = 0, VideoCodec = [],
       VideoProfile = [], VideoCompat = 0, VideoLevel = zero_float64,
       AudioCodec = [], AudioProfile = [], AudioChannels = 0, AudioSampleRate = 0,
       Clients = [] \<rparr>"

definition zero_Application :: "'f Application" where
  "zero_Application = \<lparr> Application.Name = [], Streams = [] \<rparr>"

definition zero_Stats :: "'t \<Rightarrow> ('t, 'f) Stats" where
  "zero_Stats zero_Time =
     \<lparr> NGINXVersion = [], NGINXRTMPVersion = [], Compiler = [], Built = zero_Time,
       PID = 0, Uptime = 0, Accepted = 0, BitrateIn = 0, BitrateOut = 0, BytesIn = 0,
       BytesOut = 0, Applications = [] \<rparr>"

text \<open>
  Errors returned by the package, and the run-time panics that its code and the code of
  the exporter can raise: an index out of range, and the two panics of
  \<^verbatim>\<open>prometheus.MustNewConstMetric\<close> (a number of label values that differs from the number
  of labels of the descriptor, and a label value that is not valid UTF-8).
  \<open>StreamExists name\<close> is the error
  \<^verbatim>\<open>fmt.Errorf("a stream with the name %s already exists", name)\<close> of
  \<^verbatim>\<open>WithStreamMapper\<close>, and \<open>StreamExists_text name\<close> is its text. The texts of the other
  errors, which are composed by \<^verbatim>\<open>strconv\<close> and \<^verbatim>\<open>encoding/xml\<close>, are not modelled: each
  of them keeps the input it complains about.
\<close>

datatype error =
    StreamExists string
  | SyntaxError string
  | RangeError string
  | UnknownType string
  | UnexpectedEOF
  | IndexOutOfRange
  | InconsistentCardinality
  | InvalidLabelValue string

definition StreamExists_text :: "string \<Rightarrow> string" where
  "StreamExists_text name = ''a stream with the name '' @ name @ '' already exists''"

subsection \<open>Client.Add\<close>

definition Add :: "Client \<Rightarrow> Client \<Rightarrow> Client" where
  "Add c other =
     (let uptime = (if Client.Uptime c <s Client.Uptime other
                    then Client.Uptime other else Client.Uptime c);
          timestamp = (if Timestamp c <s Timestamp other
                       then Timestamp other else Timestamp c)
      in \<lparr> ID = ID c,
           Address = Address c,
           Uptime = uptime,
           FlashVersion = FlashVersion c,
           PageURL = PageURL c,
           SWFURL = SWFURL c,
           DroppedFrames = DroppedFrames c + DroppedFrames other,
           AVSync = AVSync c,
           Timestamp = timestamp,
           Active = (Client.Active c \<or> Client.Active other),
           Publishing = (Client.Publishing c \<or> Client.Publishing other),
           EntriesCount = EntriesCount c + EntriesCount other \<rparr>)"

section \<open>Mutators\<close>

text \<open>
  A \<^verbatim>\<open>Mutator\<close> is a \<^verbatim>\<open>func(s *Stats) error\<close>: it returns its error (\<open>None\<close> for nil)
  together with the \<^verbatim>\<open>Stats\<close> it leaves behind, so that what a failed call did to the
  model can be stated. The mapper functions are pure.
\<close>

type_synonym ('t, 'f) Mutator = "('t, 'f) Stats \<Rightarrow> error option \<times> ('t, 'f) Stats"

subsection \<open>WithStreamMapper\<close>

text \<open>
  The inner loop over \<^verbatim>\<open>app.Streams\<close>: \<open>transformed\<close> is the slice built off to the side,
  \<open>streamLookup\<close> the \<^verbatim>\<open>map[string]struct{}\<close> of the names seen so far.
\<close>

fun WithStreamMapper_streams ::
  "(string \<Rightarrow> string) \<Rightarrow> 'f Stream list \<Rightarrow> 'f Stream list \<Rightarrow> string set
     \<Rightarrow> error + 'f Stream list" where
  "WithStreamMapper_streams mapper [] transformed streamLookup = Inr transformed"
| "WithStreamMapper_streams mapper (stream # rest) transformed streamLookup =
     (let stream' = stream\<lparr>Stream.Name := mapper (Stream.Name stream)\<rparr>
      in if Stream.Name stream' \<in> streamLookup
         then Inl (StreamExists (Stream.Name stream'))
         else WithStreamMapper_streams mapper rest (transformed @ [stream'])
                (insert (Stream.Name stream') streamLookup))"

text \<open>
  The outer loop, \<^verbatim>\<open>for i, app := range s.Applications\<close>: index \<open>i\<close> runs over the
  applications, and \<^verbatim>\<open>s.Applications[i].Streams = transformed\<close> is written as soon as the
  inner loop of application \<open>i\<close> has finished without a duplicate.
\<close>

function WithStreamMapper_apps ::
  "(string \<Rightarrow> string) \<Rightarrow> nat \<Rightarrow> ('t, 'f) Stats \<Rightarrow> error option \<times> ('t, 'f) Stats" where
  "WithStreamMapper_apps mapper i s =
     (if i < length (Applications s)
      then (case WithStreamMapper_streams mapper (Streams (Applications s ! i)) [] {} of
              Inl err \<Rightarrow> (Some err, s)
            | Inr transformed \<Rightarrow>
                WithStreamMapper_apps mapper (Suc i)
                  (s\<lparr>Applications :=
                       (Applications s)[i := (Applications s ! i)\<lparr>Streams := transformed\<rparr>]\<rparr>))
      else (None, s))"
  by pat_completeness auto
termination
  by (relation "measure (\<lambda>(mapper, i, s). length (Applications s) - i)") auto

declare WithStreamMapper_apps.simps [simp del]

definition WithStreamMapper :: "(string \<Rightarrow> string) \<Rightarrow> ('t, 'f) Mutator" where
  "WithStreamMapper mapper s = WithStreamMapper_apps mapper 0 s"

subsection \<open>WithClientMapper\<close>

text \<open>
  The loop over \<^verbatim>\<open>stream.Clients\<close>: \<open>aggregated\<close> is the slice of merged clients and
  \<open>clientLookup\<close> the \<^verbatim>\<open>map[string]int\<close> from a new identifier to its index in
  \<open>aggregated\<close>. The write \<^verbatim>\<open>aggregated[duplicateIdx] = ...\<close> panics in Go when the index
  is out of range; the model returns that panic as \<open>IndexOutOfRange\<close>.
\<close>

fun WithClientMapper_clients ::
  "(string \<Rightarrow> string \<Rightarrow> string) \<Rightarrow> string \<Rightarrow> Client list \<Rightarrow> Client list
     \<Rightarrow> (string \<rightharpoonup> nat) \<Rightarrow> error + Client list" where
  "WithClientMapper_clients mapper streamName [] aggregated clientLookup = Inr aggregated"
| "WithClientMapper_clients mapper streamName (client # rest) aggregated clientLookup =
     (let client' = client\<lparr>ID := mapper streamName (ID client)\<rparr>
      in case clientLookup (ID client') of
           None \<Rightarrow>
             WithClientMapper_clients mapper streamName rest (aggregated @ [client'])
               (clientLookup(ID client' \<mapsto> length aggregated))
         | Some duplicateIdx \<Rightarrow>
             if duplicateIdx < length aggregated
             then WithClientMapper_clients mapper streamName rest
                    (aggregated[duplicateIdx := Add (aggregated ! duplicateIdx) client'])
                    clientLookup
             else Inl IndexOutOfRange)"

text \<open>
  \<^verbatim>\<open>for streamIdx, stream := range app.Streams\<close> inside application \<open>appIdx\<close>; each
  iteration ends with
  \<^verbatim>\<open>s.Applications[appIdx].Streams[streamIdx].Clients = aggregated\<close>.
\<close>

function WithClientMapper_streams ::
  "(string \<Rightarrow> string \<Rightarrow> string) \<Rightarrow> nat \<Rightarrow> nat \<Rightarrow> ('t, 'f) Stats
     \<Rightarrow> error option \<times> ('t, 'f) Stats" where
  "WithClientMapper_streams mapper appIdx streamIdx s =
     (if streamIdx < length (Streams (Applications s ! appIdx))
      then (let stream = Streams (Applications s ! appIdx) ! streamIdx
            in case WithClientMapper_clients mapper (Stream.Name stream) (Clients stream)
                      [] Map.empty of
                 Inl err \<Rightarrow> (Some err, s)
               | Inr aggregated \<Rightarrow>
                   WithClientMapper_streams mapper appIdx (Suc streamIdx)
                     (s\<lparr>Applications :=
                          (Applications s)[appIdx := (Applications s ! appIdx)
                             \<lparr>Streams := (Streams (Applications s ! appIdx))
                                [streamIdx := stream\<lparr>Clients := aggregated\<rparr>]\<rparr>]\<rparr>))
      else (None, s))"
  by pat_completeness auto
termination
proof (relation "measure (\<lambda>(mapper, appIdx, streamIdx, s).
                   length (Streams (Applications s ! appIdx)) - streamIdx)", goal_cases)
  case 1
  show ?case by simp
next
  case (2 mapper appIdx streamIdx s stream aggregated)
  then show ?case
    by (cases "appIdx < length (Applications s)") (auto simp: list_update_beyond)
qed

declare WithClientMapper_streams.simps [simp del]

function WithClientMapper_apps ::
  "(string \<Rightarrow> string \<Rightarrow> string) \<Rightarrow> nat \<Rightarrow> ('t, 'f) Stats
     \<Rightarrow> error option \<times> ('t, 'f) Stats" where
  "WithClientMapper_apps mapper appIdx s =
     (if appIdx < length (Applications s)
      then (case WithClientMapper_streams mapper appIdx 0 s of
              (Some err, s') \<Rightarrow> (Some err, s')
            | (None, s') \<Rightarrow> WithClientMapper_apps mapper (Suc appIdx) s')
      else (None, s))"
  by pat_completeness auto
termination
proof (relation "measure (\<lambda>(mapper, appIdx, s). length (Applications s) - appIdx)", goal_cases)
  case 1
  show ?case by simp
next
  case (2 mapper appIdx s r s')
  have keeps: "length (Applications (snd (WithClientMapper_streams mapper appIdx streamIdx t)))
                 = length (Applications t)" for streamIdx and t :: "('t, 'f) Stats"
  proof (induction mapper appIdx streamIdx t rule: WithClientMapper_streams.induct)
    case (1 mapper appIdx streamIdx t)
    show ?case
    proof (cases "streamIdx < length (Streams (Applications t ! appIdx))")
      case False
      then show ?thesis
        by (subst WithClientMapper_streams.simps) simp
    next
      case True
      let ?stream = "Streams (Applications t ! appIdx) ! streamIdx"
      show ?thesis
      proof (cases "WithClientMapper_clients mapper (Stream.Name ?stream) (Clients ?stream)
                      [] Map.empty")
        case (Inl err)
        with True show ?thesis
          by (subst WithClientMapper_streams.simps) simp
      next
        case (Inr aggregated)
        have "length (Applications (snd (WithClientMapper_streams mapper appIdx (Suc streamIdx)
                 (t\<lparr>Applications :=
                      (Applications t)[appIdx := (Applications t ! appIdx)
                         \<lparr>Streams := (Streams (Applications t ! appIdx))
                            [streamIdx := ?stream\<lparr>Clients := aggregated\<rparr>]\<rparr>]\<rparr>))))
              = length (Applications t)"
          using "1.IH" [OF True refl Inr] by simp
        with True Inr show ?thesis
          by (subst WithClientMapper_streams.simps) simp
      qed
    qed
  qed
  have "length (Applications s') = length (Applications s)"
    using keeps [of 0 s] 2(2) [symmetric] by simp
  with 2 show ?case by simp
qed

declare WithClientMapper_apps.simps [simp del]

definition WithClientMapper :: "(string \<Rightarrow> string \<Rightarrow> string) \<Rightarrow> ('t, 'f) Mutator" where
  "WithClientMapper mapper s = WithClientMapper_apps mapper 0 s"

section \<open>Decoding with encoding/xml\<close>

text \<open>
  The decoder works on the tokens of the document. A well-formed document is the tree of
  its elements: a node is character data or an element with its name and its content.
  Attributes, comments, processing instructions and name spaces are left out: no field
  of the package's structs is bound to any of them, and \<^verbatim>\<open>encoding/xml\<close> skips what no
  field is bound to. A malformed document makes the tokenizer fail before any of the
  code below matters.
\<close>

datatype node = CharData string | Element string "node list"

text \<open>
  What the package uses of the Go library and this theory does not look into:
  \<^verbatim>\<open>time.Parse\<close>, \<^verbatim>\<open>strconv.ParseFloat\<close> (at 64 bits), and the zero values of
  \<^verbatim>\<open>time.Time\<close> and \<^verbatim>\<open>float64\<close>.
\<close>

record ('t, 'f) stdlib =
  time_Parse :: "string \<Rightarrow> string \<Rightarrow> error + 't"
  ParseFloat :: "string \<Rightarrow> error + 'f"
  zero_Time :: 't
  zero_float64 :: 'f

subsection \<open>Scalars\<close>

text \<open>
  \<^verbatim>\<open>strings.TrimSpace\<close> removes the leading and trailing runes that \<^verbatim>\<open>unicode.IsSpace\<close>
  accepts. \<open>space_runes\<close> are their UTF-8 encodings: the six ASCII characters, U+0085,
  U+00A0, U+1680, U+2000 to U+200A, U+2028, U+2029, U+202F, U+205F and U+3000.
\<close>

definition space_runes :: "string list" where
  "space_runes =
     [[CHR 0x09], [CHR 0x0A], [CHR 0x0B], [CHR 0x0C], [CHR 0x0D], [CHR 0x20],
      [CHR 0xC2, CHR 0x85], [CHR 0xC2, CHR 0xA0], [CHR 0xE1, CHR 0x9A, CHR 0x80],
      [CHR 0xE2, CHR 0x80, CHR 0x80], [CHR 0xE2, CHR 0x80, CHR 0x81],
      [CHR 0xE2, CHR 0x80, CHR 0x82], [CHR 0xE2, CHR 0x80, CHR 0x83],
      [CHR 0xE2, CHR 0x80, CHR 0x84], [CHR 0xE2, CHR 0x80, CHR 0x85],
      [CHR 0xE2, CHR 0x80, CHR 0x86], [CHR 0xE2, CHR 0x80, CHR 0x87],
      [CHR 0xE2, CHR 0x80, CHR 0x88], [CHR 0xE2, CHR 0x80, CHR 0x89],
      [CHR 0xE2, CHR 0x80, CHR 0x8A], [CHR 0xE2, CHR 0x80, CHR 0xA8],
      [CHR 0xE2, CHR 0x80, CHR 0xA9], [CHR 0xE2, CHR 0x80, CHR 0xAF],
      [CHR 0xE2, CHR 0x81, CHR 0x9F], [CHR 0xE3, CHR 0x80, CHR 0x80]]"

fun strip_prefix :: "string list \<Rightarrow> string \<Rightarrow> string option" where
  "strip_prefix [] s = None"
| "strip_prefix (r # rs) s =
     (if r \<noteq> [] \<and> take (length r) s = r then Some (drop (length r) s) else strip_prefix rs s)"

function TrimLeft :: "string list \<Rightarrow> string \<Rightarrow> string" where
  "TrimLeft runes s =
     (case strip_prefix runes s of None \<Rightarrow> s | Some rest \<Rightarrow> TrimLeft runes rest)"
  by pat_completeness auto
termination
proof (relation "measure (\<lambda>(runes, s). length s)", goal_cases)
  case 1
  show ?case by simp
next
  case (2 runes s rest)
  have "strip_prefix rs t = Some u \<Longrightarrow> length u < length t" for rs t u
  proof (induction rs)
    case Nil
    then show ?case by simp
  next
    case (Cons r rs)
    show ?case
    proof (cases "r \<noteq> [] \<and> take (length r) t = r")
      case True
      with Cons.prems have u: "u = drop (length r) t" by simp
      from True have "length r \<le> length t"
        by (metis length_take min.cobounded1)
      with True u show ?thesis by (cases r) auto
    next
      case False
      with Cons show ?thesis by auto
    qed
  qed
  from this [OF 2] show ?case by simp
qed

declare TrimLeft.simps [simp del]

definition TrimSpace :: "string \<Rightarrow> string" where
  "TrimSpace s = rev (TrimLeft (map rev space_runes) (rev (TrimLeft space_runes s)))"

text \<open>
  \<^verbatim>\<open>strconv.ParseUint(s, 10, 64)\<close> reads the digits from the left and stops at the first
  character that is not a digit, or as soon as the value no longer fits 64 bits.
\<close>

definition is_digit :: "char \<Rightarrow> bool" where
  "is_digit c \<longleftrightarrow> (48::nat) \<le> of_char c \<and> (of_char c :: nat) \<le> 57"

definition digit_value :: "char \<Rightarrow> nat" where
  "digit_value c = of_char c - 48"

fun ParseUint_digits :: "string \<Rightarrow> nat \<Rightarrow> string \<Rightarrow> error + nat" where
  "ParseUint_digits s0 n [] = Inr n"
| "ParseUint_digits s0 n (c # cs) =
     (if \<not> is_digit c then Inl (SyntaxError s0)
      else if 2 ^ 64 \<le> n * 10 + digit_value c then Inl (RangeError s0)
      else ParseUint_digits s0 (n * 10 + digit_value c) cs)"

definition ParseUint :: "string \<Rightarrow> string \<Rightarrow> error + nat" where
  "ParseUint s0 s = (if s = [] then Inl (SyntaxError s0) else ParseUint_digits s0 0 s)"

text \<open>\<^verbatim>\<open>strconv.ParseInt(s, 10, 64)\<close>: an optional sign, then \<^verbatim>\<open>ParseUint\<close>.\<close>

definition ParseInt :: "string \<Rightarrow> error + go_int" where
  "ParseInt s =
     (if s = [] then Inl (SyntaxError s)
      else let neg = (hd s = CHR ''-'');
               digits = (if hd s = CHR ''+'' \<or> hd s = CHR ''-'' then tl s else s)
           in case ParseUint s digits of
                Inl err \<Rightarrow> Inl err
              | Inr un \<Rightarrow>
                  if \<not> neg \<and> 2 ^ 63 \<le> un then Inl (RangeError s)
                  else if neg \<and> 2 ^ 63 < un then Inl (RangeError s)
                  else Inr (if neg then - of_nat un else of_nat un))"

definition ParseBool :: "string \<Rightarrow> error + bool" where
  "ParseBool s =
     (if s \<in> {''1'', ''t'', ''T'', ''TRUE'', ''true'', ''True''} then Inr True
      else if s \<in> {''0'', ''f'', ''F'', ''FALSE'', ''false'', ''False''} then Inr False
      else Inl (SyntaxError s))"

text \<open>
  Decoding an element into a value of a basic kind: the character data directly inside
  the element is collected (elements inside it are skipped) and converted by
  \<^verbatim>\<open>copyValue\<close>; empty data gives the zero value.
\<close>

fun chardata :: "node list \<Rightarrow> string" where
  "chardata [] = []"
| "chardata (CharData s # rest) = s @ chardata rest"
| "chardata (Element name body # rest) = chardata rest"

definition unmarshal_string :: "node list \<Rightarrow> error + string" where
  "unmarshal_string body = Inr (chardata body)"

definition unmarshal_int :: "node list \<Rightarrow> error + go_int" where
  "unmarshal_int body =
     (let src = chardata body in if src = [] then Inr 0 else ParseInt (TrimSpace src))"

definition unmarshal_bool :: "node list \<Rightarrow> error + bool" where
  "unmarshal_bool body =
     (let src = chardata body in if src = [] then Inr False else ParseBool (TrimSpace src))"

definition unmarshal_float64 :: "('t, 'f) stdlib \<Rightarrow> node list \<Rightarrow> error + 'f" where
  "unmarshal_float64 lib body =
     (let src = chardata body
      in if src = [] then Inr (zero_float64 lib) else ParseFloat lib (TrimSpace src))"


subsection \<open>Structs\<close>

text \<open>
  \<^verbatim>\<open>encoding/xml\<close> decodes an element into a struct through the table of the struct's
  fields (\<^verbatim>\<open>typeInfo.fields\<close>): a field has the path of its parent elements
  (\<^verbatim>\<open>meta>video\<close> of \<^verbatim>\<open>meta>video>width\<close>), its element name, and here the function that
  decodes the matching element's content into it. \<^verbatim>\<open>unmarshalPath\<close> looks an element up
  for the path \<open>parents\<close> the decoder stands at: the first field of the table that
  matches the element perfectly receives it; the first field that has the element as
  the next step of its path makes the decoder descend into the element; an element
  that matches nothing is skipped, and so is character data, which no struct of this
  package stores.
\<close>

type_synonym 's field = "string list \<times> string \<times> (node list \<Rightarrow> 's \<Rightarrow> error + 's)"

datatype 's lookup = Perfect "node list \<Rightarrow> 's \<Rightarrow> error + 's" | Descend "string list" | Skip

fun lookup_field :: "'s field list \<Rightarrow> string list \<Rightarrow> string \<Rightarrow> 's lookup" where
  "lookup_field [] parents name = Skip"
| "lookup_field ((fparents, fname, decode) # finfos) parents name =
     (if length fparents < length parents \<or> take (length parents) fparents \<noteq> parents
      then lookup_field finfos parents name
      else if length fparents = length parents \<and> fname = name then Perfect decode
      else if length parents < length fparents \<and> fparents ! length parents = name
      then Descend (take (Suc (length parents)) fparents)
      else lookup_field finfos parents name)"

fun unmarshalPath :: "'s field list \<Rightarrow> string list \<Rightarrow> node \<Rightarrow> 's \<Rightarrow> error + 's"
  and unmarshalPath_tokens :: "'s field list \<Rightarrow> string list \<Rightarrow> node list \<Rightarrow> 's \<Rightarrow> error + 's"
where
  "unmarshalPath tinfo parents (CharData text) sv = Inr sv"
| "unmarshalPath tinfo parents (Element name body) sv =
     (case lookup_field tinfo parents name of
        Perfect decode \<Rightarrow> decode body sv
      | Descend parents' \<Rightarrow> unmarshalPath_tokens tinfo parents' body sv
      | Skip \<Rightarrow> Inr sv)"
| "unmarshalPath_tokens tinfo parents [] sv = Inr sv"
| "unmarshalPath_tokens tinfo parents (tok # toks) sv =
     (case unmarshalPath tinfo parents tok sv of
        Inl err \<Rightarrow> Inl err
      | Inr sv' \<Rightarrow> unmarshalPath_tokens tinfo parents toks sv')"

definition unmarshal_struct :: "'s field list \<Rightarrow> 's \<Rightarrow> node list \<Rightarrow> error + 's" where
  "unmarshal_struct tinfo zero body = unmarshalPath_tokens tinfo [] body zero"

text \<open>
  A field of the table: \<open>decode\<close> reads the element's content, \<open>store\<close> assigns the
  value to the field (appends it, for a slice).
\<close>

definition field ::
  "string list \<Rightarrow> string \<Rightarrow> (node list \<Rightarrow> error + 'v) \<Rightarrow> ('v \<Rightarrow> 's \<Rightarrow> 's) \<Rightarrow> 's field" where
  "field parents name decode store =
     (parents, name,
      \<lambda>body sv. case decode body of Inl err \<Rightarrow> Inl err | Inr v \<Rightarrow> Inr (store v sv))"

subsection \<open>The adapters\<close>

definition Time_UnmarshalXML :: "('t, 'f) stdlib \<Rightarrow> node list \<Rightarrow> error + 't" where
  "Time_UnmarshalXML lib body =
     (case unmarshal_string body of
        Inl err \<Rightarrow> Inl err
      | Inr timeStr \<Rightarrow> time_Parse lib ''Jan _2 2006 15:04:05'' timeStr)"

definition Duration_UnmarshalXML :: "node list \<Rightarrow> error + Duration" where
  "Duration_UnmarshalXML body =
     (case unmarshal_int body of
        Inl err \<Rightarrow> Inl err
      | Inr ms \<Rightarrow> Inr (Millisecond * ms))"

text \<open>
  \<^verbatim>\<open>Boolean.UnmarshalXML\<close> sets the value to true and then runs
  \<^verbatim>\<open>dec.DecodeElement(&dec, &start)\<close>: the target of the decoding is the decoder
  \<^verbatim>\<open>*xml.Decoder\<close> itself (the variable \<^verbatim>\<open>consume\<close> declared for it is not used). So the
  content of the element is decoded into the struct \<^verbatim>\<open>xml.Decoder\<close>, whose exported fields
  have no tags and are bound to elements of their own names: \<^verbatim>\<open>Strict bool\<close>,
  \<^verbatim>\<open>AutoClose []string\<close>, \<^verbatim>\<open>Entity map[string]string\<close>,
  \<^verbatim>\<open>CharsetReader func(string, io.Reader) (io.Reader, error)\<close> and
  \<^verbatim>\<open>DefaultSpace string\<close>. A map and a func are kinds \<^verbatim>\<open>encoding/xml\<close> cannot decode
  into: it fails with \<^verbatim>\<open>unknown type\<close>. The other three are written into the running
  decoder, where they steer how the rest of the document is read: with
  \<^verbatim>\<open>Strict = false\<close> an end tag may close an element of another name and the elements
  named in \<^verbatim>\<open>AutoClose\<close> are closed as soon as they are opened, and \<^verbatim>\<open>DefaultSpace\<close> is
  the name space given to the elements and end tags that are read after it is set.

  This theory takes the document as the tree of elements that the decoder reads with the
  options of \<^verbatim>\<open>xml.NewDecoder\<close>. So \<open>Boolean_UnmarshalXML\<close> decodes the options from
  \<open>NewDecoder\<close>, reports the errors of that decoding, and answers for the code only when
  no option is written: on a document in which the content of some presence element
  holds an element \<^verbatim>\<open>Strict\<close>, \<^verbatim>\<open>AutoClose\<close> or \<^verbatim>\<open>DefaultSpace\<close>, what the code reads
  after that element need not be what the tree holds. The predicate \<open>Decoder_untouched\<close>
  below singles out the documents without such an element; the statements that depend on
  what is read after a presence element assume it.
\<close>

record Decoder =
  Strict :: bool
  AutoClose :: "string list"
  DefaultSpace :: string

definition NewDecoder :: Decoder where
  "NewDecoder = \<lparr> Strict = True, AutoClose = [], DefaultSpace = [] \<rparr>"

definition unknown_type :: "string \<Rightarrow> node list \<Rightarrow> error + unit" where
  "unknown_type t body = Inl (UnknownType t)"

definition Decoder_fields :: "Decoder field list" where
  "Decoder_fields =
     [field [] ''Strict'' unmarshal_bool (\<lambda>v d. d\<lparr>Strict := v\<rparr>),
      field [] ''AutoClose'' unmarshal_string (\<lambda>v d. d\<lparr>AutoClose := AutoClose d @ [v]\<rparr>),
      field [] ''Entity'' (unknown_type ''map[string]string'') (\<lambda>v d. d),
      field [] ''CharsetReader''
        (unknown_type ''func(string, io.Reader) (io.Reader, error)'') (\<lambda>v d. d),
      field [] ''DefaultSpace'' unmarshal_string (\<lambda>v d. d\<lparr>DefaultSpace := v\<rparr>)]"

definition Boolean_UnmarshalXML :: "node list \<Rightarrow> error + bool" where
  "Boolean_UnmarshalXML body =
     (case unmarshal_struct Decoder_fields NewDecoder body of
        Inl err \<Rightarrow> Inl err
      | Inr dec \<Rightarrow> Inr True)"

subsection \<open>Client.UnmarshalXML\<close>

text \<open>
  The struct \<^verbatim>\<open>stats\<close> that \<^verbatim>\<open>Client.UnmarshalXML\<close> decodes into embeds \<^verbatim>\<open>plain\<close> and
  overrides four of its fields; a field of the outer struct hides the embedded field of
  the same element name, and the hidden fields leave the table. \<^verbatim>\<open>EntriesCount\<close> has the
  tag \<^verbatim>\<open>xml:"-"\<close> and is not in the table.
\<close>

record Client_stats =
  plain :: Client
  Uptime :: Duration
  Timestamp :: Duration
  Active :: bool
  Publishing :: bool

definition Client_fields :: "Client_stats field list" where
  "Client_fields =
     [field [] ''id'' unmarshal_string
        (\<lambda>v s. s\<lparr>Client_stats.plain := (Client_stats.plain s)\<lparr>ID := v\<rparr>\<rparr>),
      field [] ''address'' unmarshal_string
        (\<lambda>v s. s\<lparr>Client_stats.plain := (Client_stats.plain s)\<lparr>Address := v\<rparr>\<rparr>),
      field [] ''flashver'' unmarshal_string
        (\<lambda>v s. s\<lparr>Client_stats.plain := (Client_stats.plain s)\<lparr>FlashVersion := v\<rparr>\<rparr>),
      field [] ''pageurl'' unmarshal_string
        (\<lambda>v s. s\<lparr>Client_stats.plain := (Client_stats.plain s)\<lparr>PageURL := v\<rparr>\<rparr>),
      field [] ''swfurl'' unmarshal_string
        (\<lambda>v s. s\<lparr>Client_stats.plain := (Client_stats.plain s)\<lparr>SWFURL := v\<rparr>\<rparr>),
      field [] ''dropped'' unmarshal_int
        (\<lambda>v s. s\<lparr>Client_stats.plain := (Client_stats.plain s)\<lparr>DroppedFrames := v\<rparr>\<rparr>),
      field [] ''avsync'' unmarshal_int
        (\<lambda>v s. s\<lparr>Client_stats.plain := (Client_stats.plain s)\<lparr>AVSync := v\<rparr>\<rparr>),
      field [] ''time'' Duration_UnmarshalXML (\<lambda>v s. s\<lparr>Client_stats.Uptime := v\<rparr>),
      field [] ''timestamp'' Duration_UnmarshalXML (\<lambda>v s. s\<lparr>Client_stats.Timestamp := v\<rparr>),
      field [] ''active'' Boolean_UnmarshalXML (\<lambda>v s. s\<lparr>Client_stats.Active := v\<rparr>),
      field [] ''publishing'' Boolean_UnmarshalXML (\<lambda>v s. s\<lparr>Client_stats.Publishing := v\<rparr>)]"

definition zero_Client_stats :: Client_stats where
  "zero_Client_stats =
     \<lparr> Client_stats.plain = zero_Client, Uptime = 0, Timestamp = 0, Active = False,
       Publishing = False \<rparr>"

definition Client_UnmarshalXML :: "node list \<Rightarrow> error + Client" where
  "Client_UnmarshalXML body =
     (case unmarshal_struct Client_fields zero_Client_stats body of
        Inl err \<Rightarrow> Inl err
      | Inr stats \<Rightarrow>
          Inr ((Client_stats.plain stats)
                 \<lparr> Client.Uptime := Client_stats.Uptime stats,
                   Client.Timestamp := Client_stats.Timestamp stats,
                   Client.Active := Client_stats.Active stats,
                   Client.Publishing := Client_stats.Publishing stats,
                   EntriesCount := 1 \<rparr>))"

subsection \<open>Stream.UnmarshalXML\<close>

record 'f Stream_stats =
  plain :: "'f Stream"
  Uptime :: Duration
  Publishing :: bool
  Active :: bool

definition Stream_fields :: "('t, 'f) stdlib \<Rightarrow> 'f Stream_stats field list" where
  "Stream_fields lib =
     [field [] ''name'' unmarshal_string
        (\<lambda>v s. s\<lparr>Stream_stats.plain := (Stream_stats.plain s)\<lparr>Stream.Name := v\<rparr>\<rparr>),
      field [] ''bw_in'' unmarshal_int
        (\<lambda>v s. s\<lparr>Stream_stats.plain := (Stream_stats.plain s)\<lparr>Stream.BitrateIn := v\<rparr>\<rparr>),
      field [] ''bw_out'' unmarshal_int
        (\<lambda>v s. s\<lparr>Stream_stats.plain := (Stream_stats.plain s)\<lparr>Stream.BitrateOut := v\<rparr>\<rparr>),
      field [] ''bytes_in'' unmarshal_int
        (\<lambda>v s. s\<lparr>Stream_stats.plain := (Stream_stats.plain s)\<lparr>Stream.BytesIn := v\<rparr>\<rparr>),
      field [] ''bytes_out'' unmarshal_int
        (\<lambda>v s. s\<lparr>Stream_stats.plain := (Stream_stats.plain s)\<lparr>Stream.BytesOut := v\<rparr>\<rparr>),
      field [] ''bw_video'' unmarshal_int
        (\<lambda>v s. s\<lparr>Stream_stats.plain := (Stream_stats.plain s)\<lparr>BitrateVideo := v\<rparr>\<rparr>),
      field [] ''bw_audio'' unmarshal_int
        (\<lambda>v s. s\<lparr>Stream_stats.plain := (Stream_stats.plain s)\<lparr>BitrateAudio := v\<rparr>\<rparr>),
      field [] ''nclients'' unmarshal_int
        (\<lambda>v s. s\<lparr>Stream_stats.plain := (Stream_stats.plain s)\<lparr>NumClients := v\<rparr>\<rparr>),
      field [''meta'', ''video''] ''width'' unmarshal_int
        (\<lambda>v s. s\<lparr>Stream_stats.plain := (Stream_stats.plain s)\<lparr>VideoWidth := v\<rparr>\<rparr>),
      field [''meta'', ''video''] ''height'' unmarshal_int
        (\<lambda>v s. s\<lparr>Stream_stats.plain := (Stream_stats.plain s)\<lparr>VideoHeight := v\<rparr>\<rparr>),
      field [''meta'', ''video''] ''frame_rate'' unmarshal_int
        (\<lambda>v s. s\<lparr>Stream_stats.plain := (Stream_stats.plain s)\<lparr>VideoFramerate := v\<rparr>\<rparr>),
      field [''meta'', ''video''] ''codec'' unmarshal_string
        (\<lambda>v s. s\<lparr>Stream_stats.plain := (Stream_stats.plain s)\<lparr>VideoCodec := v\<rparr>\<rparr>),
      field [''meta'', ''video''] ''profile'' unmarshal_string
        (\<lambda>v s. s\<lparr>Stream_stats.plain := (Stream_stats.plain s)\<lparr>VideoProfile := v\<rparr>\<rparr>),
      field [''meta'', ''video''] ''compat'' unmarshal_int
        (\<lambda>v s. s\<lparr>Stream_stats.plain := (Stream_stats.plain s)\<lparr>VideoCompat := v\<rparr>\<rparr>),
      field [''meta'', ''video''] ''level'' (unmarshal_float64 lib)
        (\<lambda>v s. s\<lparr>Stream_stats.plain := (Stream_stats.plain s)\<lparr>VideoLevel := v\<rparr>\<rparr>),
      field [''meta'', ''audio''] ''codec'' unmarshal_string
        (\<lambda>v s. s\<lparr>Stream_stats.plain := (Stream_stats.plain s)\<lparr>AudioCodec := v\<rparr>\<rparr>),
      field [''meta'', ''audio''] ''profile'' unmarshal_string
        (\<lambda>v s. s\<lparr>Stream_stats.plain := (Stream_stats.plain s)\<lparr>AudioProfile := v\<rparr>\<rparr>),
      field [''meta'', ''audio''] ''channels'' unmarshal_int
        (\<lambda>v s. s\<lparr>Stream_stats.plain := (Stream_stats.plain s)\<lparr>AudioChannels := v\<rparr>\<rparr>),
      field [''meta'', ''audio''] ''sample_rate'' unmarshal_int
        (\<lambda>v s. s\<lparr>Stream_stats.plain := (Stream_stats.plain s)\<lparr>AudioSampleRate := v\<rparr>\<rparr>),
      field [] ''client'' Client_UnmarshalXML
        (\<lambda>v s. s\<lparr>Stream_stats.plain :=
                  (Stream_stats.plain s)\<lparr>Clients := Clients (Stream_stats.plain s) @ [v]\<rparr>\<rparr>),
      field [] ''time'' Duration_UnmarshalXML (\<lambda>v s. s\<lparr>Stream_stats.Uptime := v\<rparr>),
      field [] ''publishing'' Boolean_UnmarshalXML (\<lambda>v s. s\<lparr>Stream_stats.Publishing := v\<rparr>),
      field [] ''active'' Boolean_UnmarshalXML (\<lambda>v s. s\<lparr>Stream_stats.Active := v\<rparr>)]"

definition zero_Stream_stats :: "('t, 'f) stdlib \<Rightarrow> 'f Stream_stats" where
  "zero_Stream_stats lib =
     \<lparr> Stream_stats.plain = zero_Stream (zero_float64 lib), Uptime = 0, Publishing = False,
       Active = False \<rparr>"

definition Stream_UnmarshalXML :: "('t, 'f) stdlib \<Rightarrow> node list \<Rightarrow> error + 'f Stream" where
  "Stream_UnmarshalXML lib body =
     (case unmarshal_struct (Stream_fields lib) (zero_Stream_stats lib) body of
        Inl err \<Rightarrow> Inl err
      | Inr stats \<Rightarrow>
          Inr ((Stream_stats.plain stats)
                 \<lparr> Stream.Uptime := Stream_stats.Uptime stats,
                   Stream.Publishing := Stream_stats.Publishing stats,
                   Stream.Active := Stream_stats.Active stats \<rparr>))"

subsection \<open>Application\<close>

text \<open>\<^verbatim>\<open>Application\<close> has no \<^verbatim>\<open>UnmarshalXML\<close>: it is decoded through its own table.\<close>

definition Application_fields :: "('t, 'f) stdlib \<Rightarrow> 'f Application field list" where
  "Application_fields lib =
     [field [] ''name'' unmarshal_string (\<lambda>v app. app\<lparr>Application.Name := v\<rparr>),
      field [''live''] ''stream'' (Stream_UnmarshalXML lib)
        (\<lambda>v app. app\<lparr>Streams := Streams app @ [v]\<rparr>)]"

definition unmarshal_Application :: "('t, 'f) stdlib \<Rightarrow> node list \<Rightarrow> error + 'f Application" where
  "unmarshal_Application lib body =
     unmarshal_struct (Application_fields lib) zero_Application body"

subsection \<open>Stats.UnmarshalXML\<close>

record ('t, 'f) Stats_stats =
  plain :: "('t, 'f) Stats"
  Built :: 't
  Uptime :: Duration

definition Stats_fields :: "('t, 'f) stdlib \<Rightarrow> ('t, 'f) Stats_stats field list" where
  "Stats_fields lib =
     [field [] ''nginx_version'' unmarshal_string
        (\<lambda>v s. s\<lparr>Stats_stats.plain := (Stats_stats.plain s)\<lparr>NGINXVersion := v\<rparr>\<rparr>),
      field [] ''nginx_rtmp_version'' unmarshal_string
        (\<lambda>v s. s\<lparr>Stats_stats.plain := (Stats_stats.plain s)\<lparr>NGINXRTMPVersion := v\<rparr>\<rparr>),
      field [] ''compiler'' unmarshal_string
        (\<lambda>v s. s\<lparr>Stats_stats.plain := (Stats_stats.plain s)\<lparr>Compiler := v\<rparr>\<rparr>),
      field [] ''pid'' unmarshal_int
        (\<lambda>v s. s\<lparr>Stats_stats.plain := (Stats_stats.plain s)\<lparr>PID := v\<rparr>\<rparr>),
      field [] ''naccepted'' unmarshal_int
        (\<lambda>v s. s\<lparr>Stats_stats.plain := (Stats_stats.plain s)\<lparr>Accepted := v\<rparr>\<rparr>),
      field [] ''bw_in'' unmarshal_int
        (\<lambda>v s. s\<lparr>Stats_stats.plain := (Stats_stats.plain s)\<lparr>Stats.BitrateIn := v\<rparr>\<rparr>),
      field [] ''bw_out'' unmarshal_int
        (\<lambda>v s. s\<lparr>Stats_stats.plain := (Stats_stats.plain s)\<lparr>Stats.BitrateOut := v\<rparr>\<rparr>),
      field [] ''bytes_in'' unmarshal_int
        (\<lambda>v s. s\<lparr>Stats_stats.plain := (Stats_stats.plain s)\<lparr>Stats.BytesIn := v\<rparr>\<rparr>),
      field [] ''bytes_out'' unmarshal_int
        (\<lambda>v s. s\<lparr>Stats_stats.plain := (Stats_stats.plain s)\<lparr>Stats.BytesOut := v\<rparr>\<rparr>),
      field [''server''] ''application'' (unmarshal_Application lib)
        (\<lambda>v s. s\<lparr>Stats_stats.plain :=
                  (Stats_stats.plain s)\<lparr>Applications := Applications (Stats_stats.plain s) @ [v]\<rparr>\<rparr>),
      field [] ''built'' (Time_UnmarshalXML lib) (\<lambda>v s. s\<lparr>Stats_stats.Built := v\<rparr>),
      field [] ''uptime'' Duration_UnmarshalXML (\<lambda>v s. s\<lparr>Stats_stats.Uptime := v\<rparr>)]"

definition zero_Stats_stats :: "('t, 'f) stdlib \<Rightarrow> ('t, 'f) Stats_stats" where
  "zero_Stats_stats lib =
     \<lparr> Stats_stats.plain = zero_Stats (zero_Time lib), Built = zero_Time lib, Uptime = 0 \<rparr>"

text \<open>
  Division of \<^verbatim>\<open>int64\<close> in Go truncates towards zero; the divisor here is the constant
  \<^verbatim>\<open>time.Millisecond\<close>.
\<close>

definition int64_div :: "64 word \<Rightarrow> 64 word \<Rightarrow> 64 word" where
  "int64_div a b = word_of_int (sint a sdiv sint b)"

definition Stats_UnmarshalXML :: "('t, 'f) stdlib \<Rightarrow> node list \<Rightarrow> error + ('t, 'f) Stats" where
  "Stats_UnmarshalXML lib body =
     (case unmarshal_struct (Stats_fields lib) (zero_Stats_stats lib) body of
        Inl err \<Rightarrow> Inl err
      | Inr stats \<Rightarrow>
          Inr ((Stats_stats.plain stats)
                 \<lparr> Stats.Built := Stats_stats.Built stats,
                   Stats.Uptime :=
                     int64_div (Stats_stats.Uptime stats) Millisecond * Second \<rparr>))"

subsection \<open>Unmarshal\<close>

text \<open>
  \<^verbatim>\<open>dec.Decode(&s)\<close> reads tokens up to the first start element, the root of the
  document, and decodes it with \<^verbatim>\<open>Stats.UnmarshalXML\<close>; a document without an element
  ends in \<^verbatim>\<open>io.EOF\<close>. The mutators then run in order, and the first error ends the call.
\<close>

fun Decode :: "('t, 'f) stdlib \<Rightarrow> node list \<Rightarrow> error + ('t, 'f) Stats" where
  "Decode lib [] = Inl UnexpectedEOF"
| "Decode lib (CharData text # toks) = Decode lib toks"
| "Decode lib (Element name body # toks) = Stats_UnmarshalXML lib body"

fun apply_mutators :: "('t, 'f) Mutator list \<Rightarrow> ('t, 'f) Stats \<Rightarrow> error + ('t, 'f) Stats" where
  "apply_mutators [] s = Inr s"
| "apply_mutators (mut # muts) s =
     (case mut s of
        (Some err, s') \<Rightarrow> Inl err
      | (None, s') \<Rightarrow> apply_mutators muts s')"

definition Unmarshal ::
  "('t, 'f) stdlib \<Rightarrow> node list \<Rightarrow> ('t, 'f) Mutator list \<Rightarrow> error + ('t, 'f) Stats" where
  "Unmarshal lib r muts =
     (case Decode lib r of
        Inl err \<Rightarrow> Inl err
      | Inr s \<Rightarrow> apply_mutators muts s)"

section \<open>The collector of package exporter\<close>

text \<open>
  \<^verbatim>\<open>Exporter.Collect\<close> sends constant metrics to a channel, one after the other, and each
  of them is built by \<^verbatim>\<open>prometheus.MustNewConstMetric\<close>, which panics when the metric
  cannot be built. The model returns the metrics that are sent, in the order they are
  sent, and the panic that ended the run, if there is one. A metric is its descriptor,
  its value type, its value and its label values. The value is kept as the expression that
  is converted to \<^verbatim>\<open>float64\<close>: a Go \<^verbatim>\<open>int\<close>, the seconds of a \<^verbatim>\<open>Duration\<close>, or the
  constant 1. \<^verbatim>\<open>getStats\<close> reads a file or a URL; its result is a parameter of \<open>Collect\<close>,
  and so is \<^verbatim>\<open>time.Time.String\<close>.
\<close>

record Desc =
  fqName :: string
  helpText :: string
  variableLabels :: "string list"

datatype ValueType = CounterValue | GaugeValue

datatype sample = One | OfInt go_int | Seconds Duration

record Metric =
  desc :: Desc
  valueType :: ValueType
  val :: sample
  labelValues :: "string list"

text \<open>
  \<^verbatim>\<open>utf8.ValidString\<close>: the bytes below \<^verbatim>\<open>0x80\<close> stand for themselves; any other byte
  must start a sequence of two to four bytes, whose length and whose range for the second
  byte are given by the table \<^verbatim>\<open>first\<close>; the bytes after the second are in
  \<^verbatim>\<open>0x80\<close>..\<^verbatim>\<open>0xBF\<close>.
\<close>

definition first :: "char \<Rightarrow> (nat \<times> nat \<times> nat) option" where
  "first c =
     (let b = (of_char c :: nat)
      in if 0xC2 \<le> b \<and> b \<le> 0xDF then Some (2, 0x80, 0xBF)
         else if b = 0xE0 then Some (3, 0xA0, 0xBF)
         else if 0xE1 \<le> b \<and> b \<le> 0xEC then Some (3, 0x80, 0xBF)
         else if b = 0xED then Some (3, 0x80, 0x9F)
         else if b = 0xEE \<or> b = 0xEF then Some (3, 0x80, 0xBF)
         else if b = 0xF0 then Some (4, 0x90, 0xBF)
         else if 0xF1 \<le> b \<and> b \<le> 0xF3 then Some (4, 0x80, 0xBF)
         else if b = 0xF4 then Some (4, 0x80, 0x8F)
         else None)"

definition between :: "nat \<Rightarrow> char \<Rightarrow> nat \<Rightarrow> bool" where
  "between lo c hi \<longleftrightarrow> lo \<le> of_char c \<and> (of_char c :: nat) \<le> hi"

function ValidString :: "string \<Rightarrow> bool" where
  "ValidString [] = True"
| "ValidString (si # rest) =
     (if (of_char si :: nat) < 0x80 then ValidString rest
      else case first si of
             None \<Rightarrow> False
           | Some (n, lo, hi) \<Rightarrow>
               if length (si # rest) < n then False
               else if \<not> between lo ((si # rest) ! 1) hi then False
               else if n = 2 then ValidString (drop 2 (si # rest))
               else if \<not> between 0x80 ((si # rest) ! 2) 0xBF then False
               else if n = 3 then ValidString (drop 3 (si # rest))
               else if \<not> between 0x80 ((si # rest) ! 3) 0xBF then False
               else ValidString (drop 4 (si # rest)))"
  by pat_completeness auto
termination
  by (relation "measure length") auto

declare ValidString.simps [simp del]

text \<open>
  \<^verbatim>\<open>prometheus.MustNewConstMetric\<close> panics with the error of \<^verbatim>\<open>NewConstMetric\<close>, which
  checks the label values: there must be as many as the descriptor has labels, and each
  must be valid UTF-8 (the first that is not is reported). The descriptors of the exporter
  are constants with valid names, so the error of a descriptor does not arise.
\<close>

definition MustNewConstMetric ::
  "Desc \<Rightarrow> ValueType \<Rightarrow> sample \<Rightarrow> string list \<Rightarrow> error + Metric" where
  "MustNewConstMetric d t v ls =
     (if length ls \<noteq> length (variableLabels d) then Inl InconsistentCardinality
      else case find (\<lambda>l. \<not> ValidString l) ls of
             Some l \<Rightarrow> Inl (InvalidLabelValue l)
           | None \<Rightarrow> Inr \<lparr> desc = d, valueType = t, val = v, labelValues = ls \<rparr>)"

text \<open>
  The statements \<^verbatim>\<open>ch <- prometheus.MustNewConstMetric(...)\<close> of \<^verbatim>\<open>Collect\<close> run in
  sequence: the first panic ends the run, after the metrics before it have been sent.
\<close>

fun send :: "(error + Metric) list \<Rightarrow> Metric list \<times> error option" where
  "send [] = ([], None)"
| "send (Inl panic # rest) = ([], Some panic)"
| "send (Inr m # rest) = (case send rest of (sent, r) \<Rightarrow> (m # sent, r))"

definition nginxBuildInfo :: Desc where
  "nginxBuildInfo =
     \<lparr> fqName = ''rtmp_nginx_build_info'', helpText = ''Info about the running nginx server'',
       variableLabels = [''nginx_version'', ''nginx_rtmp_version'', ''compiler'', ''built''] \<rparr>"

definition serverBitrateIn :: Desc where
  "serverBitrateIn =
     \<lparr> fqName = ''rtmp_server_bitrate_in'', helpText = ''Current incoming bitrate to the server'',
       variableLabels = [] \<rparr>"

definition serverBitrateOut :: Desc where
  "serverBitrateOut =
     \<lparr> fqName = ''rtmp_server_bitrate_out'', helpText = ''Current outgoing bitrate from the server'',
       variableLabels = [] \<rparr>"

definition serverRxTotal :: Desc where
  "serverRxTotal =
     \<lparr> fqName = ''rtmp_server_bytes_read_total'',
       helpText = ''Total amount of bytes read by the server'', variableLabels = [] \<rparr>"

definition serverTxTotal :: Desc where
  "serverTxTotal =
     \<lparr> fqName = ''rtmp_server_bytes_sent_total'',
       helpText = ''Total amount of bytes sent by the server'', variableLabels = [] \<rparr>"

definition streamUptimeSeconds :: Desc where
  "streamUptimeSeconds =
     \<lparr> fqName = ''rtmp_stream_uptime_seconds'', helpText = ''Uptime of the stream in seconds'',
       variableLabels = [''application'', ''stream'', ''publisher''] \<rparr>"

definition streamBitrateIn :: Desc where
  "streamBitrateIn =
     \<lparr> fqName = ''rtmp_stream_bitrate_in'',
       helpText = ''Current incoming bitrate for the given stream'',
       variableLabels = [''application'', ''stream'', ''publisher''] \<rparr>"

definition streamBitrateOut :: Desc where
  "streamBitrateOut =
     \<lparr> fqName = ''rtmp_stream_bitrate_out'',
       helpText = ''Current outgoing bitrate for the given stream'',
       variableLabels = [''application'', ''stream'', ''publisher''] \<rparr>"

definition streamRxTotal :: Desc where
  "streamRxTotal =
     \<lparr> fqName = ''rtmp_stream_bytes_read_total'',
       helpText = ''Total amount of bytes read for the given stream'',
       variableLabels = [''application'', ''stream'', ''publisher''] \<rparr>"

definition streamTxTotal :: Desc where
  "streamTxTotal =
     \<lparr> fqName = ''rtmp_stream_bytes_sent_total'',
       helpText = ''Total amount of bytes sent by the given stream'',
       variableLabels = [''application'', ''stream'', ''publisher''] \<rparr>"

definition streamClients :: Desc where
  "streamClients =
     \<lparr> fqName = ''rtmp_stream_current_clients'',
       helpText = ''Current number of clients connected to the given stream'',
       variableLabels = [''application'', ''stream'', ''publisher''] \<rparr>"

definition streamInfo :: Desc where
  "streamInfo =
     \<lparr> fqName = ''rtmp_stream_info'', helpText = ''Info for a specific stream'',
       variableLabels = [''application'', ''stream'', ''publisher'', ''video_resolution'',
         ''frame_rate'', ''video_codec'', ''audio_codec'', ''audio_channels'',
         ''audio_sample_rate''] \<rparr>"

text \<open>\<^verbatim>\<open>fmt.Sprintf("%d", n)\<close> for a Go \<^verbatim>\<open>int\<close>: its signed value in decimal.\<close>

function decimal :: "nat \<Rightarrow> string" where
  "decimal n = (if n < 10 then [char_of (48 + n)]
                else decimal (n div 10) @ [char_of (48 + n mod 10)])"
  by pat_completeness auto
termination
  by (relation "measure (\<lambda>n. n)") auto

declare decimal.simps [simp del]

definition Sprintf_d :: "go_int \<Rightarrow> string" where
  "Sprintf_d n = (if sint n < 0 then CHR ''-'' # decimal (nat (- sint n))
                  else decimal (nat (sint n)))"

text \<open>
  The search for the publisher of a stream:
  \<^verbatim>\<open>var publisher rtmpstats.Client; for _, cli := range stream.Clients
      { if cli.Publishing { publisher = cli; break } }\<close>.
\<close>

fun Collect_publisher :: "Client list \<Rightarrow> Client \<Rightarrow> Client" where
  "Collect_publisher [] publisher = publisher"
| "Collect_publisher (cli # rest) publisher =
     (if Client.Publishing cli then cli else Collect_publisher rest publisher)"

text \<open>The metrics that the body of the loop over the streams builds, in order.\<close>

definition Collect_stream :: "'f Application \<Rightarrow> 'f Stream \<Rightarrow> (error + Metric) list" where
  "Collect_stream app stream =
     (let publisher = Collect_publisher (Clients stream) zero_Client;
          labels = [Application.Name app, Stream.Name stream, ID publisher]
      in [ MustNewConstMetric streamUptimeSeconds CounterValue (Seconds (Stream.Uptime stream))
             labels,
           MustNewConstMetric streamBitrateIn GaugeValue (OfInt (Stream.BitrateIn stream)) labels,
           MustNewConstMetric streamBitrateOut GaugeValue (OfInt (Stream.BitrateOut stream))
             labels,
           MustNewConstMetric streamRxTotal CounterValue (OfInt (Stream.BytesIn stream)) labels,
           MustNewConstMetric streamTxTotal CounterValue (OfInt (Stream.BytesOut stream)) labels,
           MustNewConstMetric streamClients GaugeValue (OfInt (NumClients stream)) labels,
           MustNewConstMetric streamInfo GaugeValue One
             (labels @
              [Sprintf_d (VideoWidth stream) @ ''x'' @ Sprintf_d (VideoHeight stream),
               Sprintf_d (VideoFramerate stream), VideoCodec stream, AudioCodec stream,
               Sprintf_d (AudioChannels stream), Sprintf_d (AudioSampleRate stream)]) ])"

definition Collect ::
  "('t \<Rightarrow> string) \<Rightarrow> error + ('t, 'f) Stats \<Rightarrow> Metric list \<times> error option" where
  "Collect Time_String got =
     (case got of
        Inl err \<Rightarrow> ([], None)
      | Inr s \<Rightarrow>
          send
            ([ MustNewConstMetric nginxBuildInfo GaugeValue One
                 [NGINXVersion s, NGINXRTMPVersion s, Compiler s, Time_String (Stats.Built s)],
               MustNewConstMetric serverBitrateIn GaugeValue (OfInt (Stats.BitrateIn s)) [],
               MustNewConstMetric serverBitrateOut GaugeValue (OfInt (Stats.BitrateOut s)) [],
               MustNewConstMetric serverRxTotal CounterValue (OfInt (Stats.BytesIn s)) [],
               MustNewConstMetric serverTxTotal CounterValue (OfInt (Stats.BytesOut s)) [] ]
             @ concat (map (\<lambda>app. concat (map (Collect_stream app) (Streams app)))
                         (Applications s))))"

section \<open>Specifications and test data for the proofs\<close>

subsection \<open>WithStreamMapper\<close>

text \<open>
  The loop over the applications as a recursion over the applications that are left:
  the result is the error, if any, and the applications as the loop leaves them.
  \<open>WithStreamMapper_eq\<close> below shows that the loop computes it.
\<close>

fun rename_apps ::
  "(string \<Rightarrow> string) \<Rightarrow> 'f Application list \<Rightarrow> error option \<times> 'f Application list" where
  "rename_apps mapper [] = (None, [])"
| "rename_apps mapper (app # apps) =
     (case WithStreamMapper_streams mapper (Streams app) [] {} of
        Inl err \<Rightarrow> (Some err, app # apps)
      | Inr transformed \<Rightarrow>
          (case rename_apps mapper apps of
             (r, apps') \<Rightarrow> (r, app\<lparr>Streams := transformed\<rparr> # apps')))"

definition renamed :: "(string \<Rightarrow> string) \<Rightarrow> 'f Stream \<Rightarrow> 'f Stream" where
  "renamed mapper stream = stream\<lparr>Stream.Name := mapper (Stream.Name stream)\<rparr>"

definition new_names :: "(string \<Rightarrow> string) \<Rightarrow> 'f Application \<Rightarrow> string list" where
  "new_names mapper app = map (\<lambda>stream. mapper (Stream.Name stream)) (Streams app)"

definition rename_app :: "(string \<Rightarrow> string) \<Rightarrow> 'f Application \<Rightarrow> 'f Application" where
  "rename_app mapper app = app\<lparr>Streams := map (renamed mapper) (Streams app)\<rparr>"

text \<open>
  The inputs of \<^verbatim>\<open>TestWithStreamMapper\<close>: the mapper of its case \<^verbatim>\<open>duplicates\<close> and its two
  streams; then a \<^verbatim>\<open>Stats\<close> of two applications, and one application that holds the same
  stream name twice.
\<close>

definition whoops :: "string \<Rightarrow> string" where
  "whoops name = ''whoops''"

definition stream_a :: "unit Stream" where
  "stream_a = (zero_Stream ())\<lparr>Stream.Name := ''stream_a''\<rparr>"

definition stream_b :: "unit Stream" where
  "stream_b = (zero_Stream ())\<lparr>Stream.Name := ''stream_b''\<rparr>"

definition test_streams :: "(unit, unit) Stats" where
  "test_streams =
     (zero_Stats ())\<lparr>Applications := [zero_Application\<lparr>Streams := [stream_a, stream_b]\<rparr>]\<rparr>"

definition two_apps :: "(unit, unit) Stats" where
  "two_apps =
     (zero_Stats ())\<lparr>Applications :=
        [zero_Application\<lparr>Application.Name := ''first'', Streams := [stream_a]\<rparr>,
         zero_Application\<lparr>Application.Name := ''second'', Streams := [stream_a, stream_b]\<rparr>]\<rparr>"

definition same_names :: "(unit, unit) Stats" where
  "same_names =
     (zero_Stats ())\<lparr>Applications := [zero_Application\<lparr>Streams := [stream_a, stream_a]\<rparr>]\<rparr>"

text \<open>
  A mapper that keeps the first letter of a name, and a \<^verbatim>\<open>Stats\<close> of two applications
  in each of which it makes two streams collide.
\<close>

definition first_letter :: "string \<Rightarrow> string" where
  "first_letter name = take 1 name"

definition letter_apps :: "(unit, unit) Stats" where
  "letter_apps =
     (zero_Stats ())\<lparr>Applications :=
        [zero_Application\<lparr>Application.Name := ''first'',
           Streams := [(zero_Stream ())\<lparr>Stream.Name := ''a1''\<rparr>,
                       (zero_Stream ())\<lparr>Stream.Name := ''a2''\<rparr>]\<rparr>,
         zero_Application\<lparr>Application.Name := ''second'',
           Streams := [(zero_Stream ())\<lparr>Stream.Name := ''b1''\<rparr>,
                       (zero_Stream ())\<lparr>Stream.Name := ''b2''\<rparr>]\<rparr>]\<rparr>"

subsection \<open>WithClientMapper\<close>

text \<open>
  What one iteration of the loop over the clients does to \<open>aggregated\<close>, without the
  lookup table: the client is added into the first entry with its identifier, or
  appended when there is none. \<open>aggregate\<close> folds the remapped clients of a stream this
  way; \<open>WithClientMapper_clients_start\<close> below shows that the loop computes it, under the
  invariant \<open>lookup_ok\<close> that ties \<open>clientLookup\<close> to \<open>aggregated\<close>.
\<close>

fun merge_into :: "Client \<Rightarrow> Client list \<Rightarrow> Client list" where
  "merge_into c [] = [c]"
| "merge_into c (a # as) = (if ID a = ID c then Add a c # as else a # merge_into c as)"

definition remap :: "(string \<Rightarrow> string \<Rightarrow> string) \<Rightarrow> string \<Rightarrow> Client \<Rightarrow> Client" where
  "remap mapper streamName client = client\<lparr>ID := mapper streamName (ID client)\<rparr>"

definition merge_all :: "Client list \<Rightarrow> Client list \<Rightarrow> Client list" where
  "merge_all aggregated clients = foldl (\<lambda>agg c. merge_into c agg) aggregated clients"

definition aggregate :: "(string \<Rightarrow> string \<Rightarrow> string) \<Rightarrow> string \<Rightarrow> Client list \<Rightarrow> Client list" where
  "aggregate mapper streamName clients = merge_all [] (map (remap mapper streamName) clients)"

definition aggregate_stream :: "(string \<Rightarrow> string \<Rightarrow> string) \<Rightarrow> 'f Stream \<Rightarrow> 'f Stream" where
  "aggregate_stream mapper stream =
     stream\<lparr>Clients := aggregate mapper (Stream.Name stream) (Clients stream)\<rparr>"

definition aggregate_app :: "(string \<Rightarrow> string \<Rightarrow> string) \<Rightarrow> 'f Application \<Rightarrow> 'f Application" where
  "aggregate_app mapper app = app\<lparr>Streams := map (aggregate_stream mapper) (Streams app)\<rparr>"

definition lookup_ok :: "Client list \<Rightarrow> (string \<rightharpoonup> nat) \<Rightarrow> bool" where
  "lookup_ok aggregated clientLookup \<longleftrightarrow>
     distinct (map ID aggregated) \<and>
     (\<forall>name. case clientLookup name of
               None \<Rightarrow> name \<notin> ID ` set aggregated
             | Some i \<Rightarrow> i < length aggregated \<and> ID (aggregated ! i) = name)"

text \<open>
  The clients and the mapper of \<^verbatim>\<open>TestWithClientMapper\<close>, each client with the
  \<^verbatim>\<open>EntriesCount = 1\<close> of a decoded client, in a stream that reports three clients; and
  the client the test expects for \<^verbatim>\<open>sum\<close>.
\<close>

definition sum_a :: Client where
  "sum_a =
     \<lparr> ID = ''sum_a'', Address = ''127.0.0.1'', Uptime = Minute, FlashVersion = ''1'',
       PageURL = ''http://localhost/watch'', SWFURL = ''https://swf'',
       DroppedFrames = 150, AVSync = - 12, Timestamp = Minute, Active = False,
       Publishing = False, EntriesCount = 1 \<rparr>"

definition other_a :: Client where
  "other_a =
     \<lparr> ID = ''other_a'', Address = ''1.1.1.1'', Uptime = Minute, FlashVersion = ''2'',
       PageURL = ''http://other.localhost/watch'', SWFURL = ''https://swf2'',
       DroppedFrames = 0, AVSync = 0, Timestamp = Minute, Active = False,
       Publishing = False, EntriesCount = 1 \<rparr>"

definition sum_b :: Client where
  "sum_b =
     \<lparr> ID = ''sum_b'', Address = ''127.0.0.2'', Uptime = Second, FlashVersion = ''1.1'',
       PageURL = ''http://localhost/watch-also'', SWFURL = ''https://swf/1'',
       DroppedFrames = 100, AVSync = - 12, Timestamp = Second, Active = True,
       Publishing = False, EntriesCount = 1 \<rparr>"

definition combineSums :: "string \<Rightarrow> string \<Rightarrow> string" where
  "combineSums stream name = (if name = ''sum_a'' \<or> name = ''sum_b'' then ''sum'' else name)"

definition merge_input :: "(unit, unit) Stats" where
  "merge_input =
     (zero_Stats ())\<lparr>Applications :=
        [zero_Application\<lparr>Streams :=
           [(zero_Stream ())\<lparr>Stream.Name := ''stream'', NumClients := 3,
                             Clients := [sum_a, other_a, sum_b]\<rparr>]\<rparr>]\<rparr>"

definition merged_sum :: Client where
  "merged_sum =
     \<lparr> ID = ''sum'', Address = ''127.0.0.1'', Uptime = Minute, FlashVersion = ''1'',
       PageURL = ''http://localhost/watch'', SWFURL = ''https://swf'',
       DroppedFrames = 250, AVSync = - 12, Timestamp = Minute, Active = True,
       Publishing = False, EntriesCount = 2 \<rparr>"

subsection \<open>Collector\<close>

text \<open>A stream whose second and third clients are publishing.\<close>

definition client_A :: Client where
  "client_A = zero_Client\<lparr>ID := ''A'', Client.Publishing := False\<rparr>"

definition client_B :: Client where
  "client_B = zero_Client\<lparr>ID := ''B'', Client.Publishing := True\<rparr>"

definition client_C :: Client where
  "client_C = zero_Client\<lparr>ID := ''C'', Client.Publishing := True\<rparr>"

definition publishing_stream :: "unit Stream" where
  "publishing_stream =
     (zero_Stream ())\<lparr>Stream.Name := ''stream'', Clients := [client_A, client_B, client_C]\<rparr>"

definition publishing_app :: "unit Application" where
  "publishing_app =
     zero_Application\<lparr>Application.Name := ''live'', Streams := [publishing_stream]\<rparr>"

definition publishers :: "(unit, unit) Stats" where
  "publishers = (zero_Stats ())\<lparr>Applications := [publishing_app]\<rparr>"

definition no_time :: "unit \<Rightarrow> string" where
  "no_time t = []"

text \<open>
  The strings of a \<^verbatim>\<open>Stats\<close> that \<^verbatim>\<open>Collect\<close> can pass as label values are valid UTF-8.
  (The other label values are numbers printed with \<^verbatim>\<open>%d\<close>.)
\<close>

definition labels_valid :: "('t \<Rightarrow> string) \<Rightarrow> ('t, 'f) Stats \<Rightarrow> bool" where
  "labels_valid Time_String s \<longleftrightarrow>
     ValidString (NGINXVersion s) \<and> ValidString (NGINXRTMPVersion s)
   \<and> ValidString (Compiler s) \<and> ValidString (Time_String (Stats.Built s))
   \<and> (\<forall>app \<in> set (Applications s).
         ValidString (Application.Name app)
       \<and> (\<forall>stream \<in> set (Streams app).
             ValidString (Stream.Name stream)
           \<and> ValidString (VideoCodec stream) \<and> ValidString (AudioCodec stream)
           \<and> (\<forall>cli \<in> set (Clients stream). ValidString (ID cli))))"

text \<open>The same stream, whose publisher now has an identifier that is not valid UTF-8.\<close>

definition client_FF :: Client where
  "client_FF = zero_Client\<lparr>ID := [char_of (255::nat)], Client.Publishing := True\<rparr>"

definition invalid_publisher :: "(unit, unit) Stats" where
  "invalid_publisher =
     (zero_Stats ())\<lparr>Applications :=
        [zero_Application\<lparr>Application.Name := ''live'',
           Streams := [(zero_Stream ())\<lparr>Stream.Name := ''stream'',
                         Clients := [client_A, client_FF]\<rparr>]\<rparr>]\<rparr>"

subsection \<open>Decoding\<close>

text \<open>
  \<open>keeps P X tinfo\<close>: every field of the table that is not a direct child element named
  in \<open>X\<close> decodes from a struct with property \<open>P\<close> into a struct with property \<open>P\<close>.
  \<open>element_names\<close> are the names of the elements among some nodes, \<open>element_body\<close> is the
  content of the last element of a given name among them: the one whose value the
  decoded field ends with.
\<close>

definition keeps :: "('s \<Rightarrow> bool) \<Rightarrow> string set \<Rightarrow> 's field list \<Rightarrow> bool" where
  "keeps P X tinfo \<longleftrightarrow>
     (\<forall>(fparents, fname, decode) \<in> set tinfo.
        (fparents = [] \<and> fname \<in> X)
        \<or> (\<forall>body sv sv'. P sv \<longrightarrow> decode body sv = Inr sv' \<longrightarrow> P sv'))"

fun element_names :: "node list \<Rightarrow> string set" where
  "element_names [] = {}"
| "element_names (CharData text # nds) = element_names nds"
| "element_names (Element name body # nds) = insert name (element_names nds)"

fun element_body :: "string \<Rightarrow> node list \<Rightarrow> node list option" where
  "element_body name [] = None"
| "element_body name (CharData text # nds) = element_body name nds"
| "element_body name (Element n body # nds) =
     (case element_body name nds of
        Some later \<Rightarrow> Some later
      | None \<Rightarrow> if n = name then Some body else None)"

text \<open>
  \<open>writes_Decoder body\<close>: among the children of a presence element there is one that
  \<^verbatim>\<open>Boolean.UnmarshalXML\<close> writes into an option of the running decoder.
  \<open>Decoder_untouched doc\<close>: no element \<^verbatim>\<open>active\<close> or \<^verbatim>\<open>publishing\<close>, at any depth of
  the document, has such a child; then the options of the decoder stay those of
  \<^verbatim>\<open>xml.NewDecoder\<close> for the whole run.
\<close>

fun writes_Decoder :: "node list \<Rightarrow> bool" where
  "writes_Decoder [] = False"
| "writes_Decoder (CharData chars # nds) = writes_Decoder nds"
| "writes_Decoder (Element name body # nds) =
     (name \<in> {''Strict'', ''AutoClose'', ''DefaultSpace''} \<or> writes_Decoder nds)"

fun untouched :: "node \<Rightarrow> bool" where
  "untouched (CharData chars) = True"
| "untouched (Element name body) =
     ((name \<in> {''active'', ''publishing''} \<longrightarrow> \<not> writes_Decoder body)
      \<and> (\<forall>nd \<in> set body. untouched nd))"

definition Decoder_untouched :: "node list \<Rightarrow> bool" where
  "Decoder_untouched doc \<longleftrightarrow> (\<forall>nd \<in> set doc. untouched nd)"

text \<open>
  Documents for the examples: a root with a server uptime, a stream with two clients,
  and a client record whose \<^verbatim>\<open>active\<close> element has a given content. In \<open>unit_lib\<close> times
  and floats carry no information.
\<close>

definition unit_lib :: "(unit, unit) stdlib" where
  "unit_lib =
     \<lparr> time_Parse = (\<lambda>layout v. Inr ()), ParseFloat = (\<lambda>s. Inr ()), zero_Time = (),
       zero_float64 = () \<rparr>"

definition uptime_doc :: "string \<Rightarrow> node list" where
  "uptime_doc uptime =
     [Element ''rtmp''
        [Element ''nginx_version'' [CharData ''1.19.0''],
         Element ''uptime'' [CharData uptime],
         Element ''naccepted'' [CharData ''11'']]]"

definition clients_doc :: "node list" where
  "clients_doc =
     [Element ''rtmp''
        [Element ''server''
           [Element ''application''
              [Element ''name'' [CharData ''live''],
               Element ''live''
                 [Element ''stream''
                    [Element ''name'' [CharData ''streamName''],
                     Element ''client''
                       [Element ''id'' [CharData ''51''],
                        Element ''EntriesCount'' [CharData ''5''],
                        Element ''active'' []],
                     Element ''client''
                       [Element ''id'' [CharData ''1''],
                        Element ''publishing'' [],
                        Element ''active'' []]]]]]]]"

definition clients_doc_stats :: "(unit, unit) Stats" where
  "clients_doc_stats =
     (zero_Stats ())\<lparr>Applications :=
        [zero_Application\<lparr>Application.Name := ''live'', Streams :=
           [(zero_Stream ())\<lparr>Stream.Name := ''streamName'', Clients :=
              [zero_Client\<lparr>ID := ''51'', Client.Active := True, EntriesCount := 1\<rparr>,
               zero_Client\<lparr>ID := ''1'', Client.Active := True, Client.Publishing := True,
                            EntriesCount := 1\<rparr>]\<rparr>]\<rparr>]\<rparr>"

definition active_client :: "node list \<Rightarrow> node list" where
  "active_client content =
     [Element ''id'' [CharData ''7''], Element ''active'' content,
      Element ''address'' [CharData ''1.1.1.1'']]"

text \<open>
  A document whose presence element would switch the decoder to its lenient mode before
  the server uptime is read.
\<close>

definition lenient_doc :: "node list" where
  "lenient_doc =
     [Element ''rtmp''
        [Element ''server''
           [Element ''application''
              [Element ''live''
                 [Element ''stream''
                    [Element ''client''
                       [Element ''active'' [Element ''Strict'' [CharData ''0'']]]]]]],
         Element ''uptime'' [CharData ''5'']]]"

section \<open>WithStreamMapper\<close>

lemma streams_Inr_iff:
  "WithStreamMapper_streams mapper sts tr lk = Inr out \<longleftrightarrow>
     distinct (map (\<lambda>st. mapper (Stream.Name st)) sts)
     \<and> (\<forall>st \<in> set sts. mapper (Stream.Name st) \<notin> lk)
     \<and> out = tr @ map (renamed mapper) sts"
proof (induction sts arbitrary: tr lk)
  case Nil
  show ?case by auto
next
  case (Cons st sts)
  show ?case
  proof (cases "mapper (Stream.Name st) \<in> lk")
    case True
    then show ?thesis by (auto simp: Let_def)
  next
    case False
    have "WithStreamMapper_streams mapper (st # sts) tr lk =
            WithStreamMapper_streams mapper sts (tr @ [renamed mapper st])
              (insert (mapper (Stream.Name st)) lk)"
      using False by (simp add: Let_def renamed_def)
    then show ?thesis
      using False by (auto simp: Cons.IH) (metis imageI)+
  qed
qed

lemma streams_Inl:
  "WithStreamMapper_streams mapper sts tr lk = Inl e \<Longrightarrow>
     \<exists>n. e = StreamExists n \<and>
       (\<exists>j < length sts. mapper (Stream.Name (sts ! j)) = n \<and>
          (n \<in> lk \<or> (\<exists>i < j. mapper (Stream.Name (sts ! i)) = n)))"
proof (induction sts arbitrary: tr lk)
  case Nil
  then show ?case by simp
next
  case (Cons st sts)
  show ?case
  proof (cases "mapper (Stream.Name st) \<in> lk")
    case True
    with Cons.prems have "e = StreamExists (mapper (Stream.Name st))"
      by (simp add: Let_def)
    with True show ?thesis by (intro exI [of _ "mapper (Stream.Name st)"]) auto
  next
    case False
    with Cons.prems have "WithStreamMapper_streams mapper sts
        (tr @ [st\<lparr>Stream.Name := mapper (Stream.Name st)\<rparr>])
        (insert (mapper (Stream.Name st)) lk) = Inl e"
      by (simp add: Let_def)
    from Cons.IH [OF this] obtain n j where n: "e = StreamExists n" "j < length sts"
      "mapper (Stream.Name (sts ! j)) = n"
      "n \<in> insert (mapper (Stream.Name st)) lk \<or> (\<exists>i < j. mapper (Stream.Name (sts ! i)) = n)"
      by blast
    from n(4) have "n \<in> lk \<or> (\<exists>i < Suc j. mapper (Stream.Name ((st # sts) ! i)) = n)"
    proof (elim disjE)
      assume "n \<in> insert (mapper (Stream.Name st)) lk"
      then show ?thesis by (auto intro: exI [of _ 0])
    next
      assume "\<exists>i < j. mapper (Stream.Name (sts ! i)) = n"
      then obtain i where "i < j" "mapper (Stream.Name (sts ! i)) = n" by blast
      then show ?thesis by (auto intro: exI [of _ "Suc i"])
    qed
    with n(1,2,3) show ?thesis
      by (intro exI [of _ n] conjI, simp) (rule exI [of _ "Suc j"], simp)
  qed
qed

lemma WithStreamMapper_apps_eq:
  "i \<le> length (Applications s) \<Longrightarrow>
   WithStreamMapper_apps mapper i s =
     (fst (rename_apps mapper (drop i (Applications s))),
      s\<lparr>Applications := take i (Applications s)
                          @ snd (rename_apps mapper (drop i (Applications s)))\<rparr>)"
proof (induction mapper i s rule: WithStreamMapper_apps.induct)
  case (1 mapper i s)
  show ?case
  proof (cases "i < length (Applications s)")
    case False
    with "1.prems" show ?thesis
      by (subst WithStreamMapper_apps.simps) simp
  next
    case True
    let ?apps = "Applications s"
    have drop: "drop i ?apps = ?apps ! i # drop (Suc i) ?apps"
      using True by (simp add: Cons_nth_drop_Suc)
    show ?thesis
    proof (cases "WithStreamMapper_streams mapper (Streams (?apps ! i)) [] {}")
      case (Inl err)
      have "take i ?apps @ ?apps ! i # drop (Suc i) ?apps = ?apps"
        using True by (simp add: id_take_nth_drop [symmetric])
      with True drop Inl show ?thesis
        by (subst WithStreamMapper_apps.simps) simp
    next
      case (Inr transformed)
      let ?s' = "s\<lparr>Applications := ?apps[i := (?apps ! i)\<lparr>Streams := transformed\<rparr>]\<rparr>"
      have len: "Suc i \<le> length (Applications ?s')" using True by simp
      have tk: "take (Suc i) (?apps[i := (?apps ! i)\<lparr>Streams := transformed\<rparr>])
                  = take i ?apps @ [(?apps ! i)\<lparr>Streams := transformed\<rparr>]"
        using True by (simp add: take_Suc_conv_app_nth)
      have step: "WithStreamMapper_apps mapper i s = WithStreamMapper_apps mapper (Suc i) ?s'"
        using True Inr by (subst WithStreamMapper_apps.simps) simp
      have "WithStreamMapper_apps mapper (Suc i) ?s' =
              (fst (rename_apps mapper (drop (Suc i) ?apps)),
               s\<lparr>Applications := (take i ?apps @ [(?apps ! i)\<lparr>Streams := transformed\<rparr>])
                                    @ snd (rename_apps mapper (drop (Suc i) ?apps))\<rparr>)"
        using "1.IH" [OF True Inr len] by (simp add: tk)
      with step Inr show ?thesis
        by (simp add: drop split: prod.splits)
    qed
  qed
qed

lemma WithStreamMapper_eq:
  "WithStreamMapper mapper s =
     (fst (rename_apps mapper (Applications s)),
      s\<lparr>Applications := snd (rename_apps mapper (Applications s))\<rparr>)"
  by (simp add: WithStreamMapper_def WithStreamMapper_apps_eq)

lemma streams_ok:
  "distinct (new_names mapper app) \<Longrightarrow>
   WithStreamMapper_streams mapper (Streams app) [] {} = Inr (map (renamed mapper) (Streams app))"
  by (simp add: streams_Inr_iff new_names_def)

lemma streams_fail:
  assumes "\<not> distinct (new_names mapper app)"
  shows "\<exists>n p q. WithStreamMapper_streams mapper (Streams app) [] {} = Inl (StreamExists n)
           \<and> p < q \<and> q < length (Streams app)
           \<and> mapper (Stream.Name (Streams app ! p)) = n
           \<and> mapper (Stream.Name (Streams app ! q)) = n"
proof (cases "WithStreamMapper_streams mapper (Streams app) [] {}")
  case (Inr out)
  with assms show ?thesis
    by (simp add: streams_Inr_iff new_names_def)
next
  case (Inl e)
  from streams_Inl [OF Inl] Inl show ?thesis
    by auto
qed

lemma rename_apps_ok:
  "\<forall>app \<in> set apps. distinct (new_names mapper app) \<Longrightarrow>
   rename_apps mapper apps = (None, map (rename_app mapper) apps)"
  by (induction apps) (simp_all add: streams_ok rename_app_def)

lemma rename_apps_None:
  "fst (rename_apps mapper apps) = None \<Longrightarrow> \<forall>app \<in> set apps. distinct (new_names mapper app)"
proof (induction apps)
  case Nil
  show ?case by simp
next
  case (Cons app apps)
  show ?case
  proof (cases "distinct (new_names mapper app)")
    case True
    with Cons show ?thesis
      by (simp add: streams_ok [OF True] split: prod.splits)
  next
    case False
    from streams_fail [OF False] obtain n where
      "WithStreamMapper_streams mapper (Streams app) [] {} = Inl (StreamExists n)"
      by blast
    with Cons.prems show ?thesis by simp
  qed
qed

lemma rename_apps_Some:
  "rename_apps mapper apps = (Some e, apps') \<Longrightarrow>
     \<exists>k < length apps.
        (\<forall>j < k. distinct (new_names mapper (apps ! j)))
        \<and> WithStreamMapper_streams mapper (Streams (apps ! k)) [] {} = Inl e
        \<and> apps' = map (rename_app mapper) (take k apps) @ drop k apps"
proof (induction apps arbitrary: apps')
  case Nil
  then show ?case by simp
next
  case (Cons app apps)
  show ?case
  proof (cases "WithStreamMapper_streams mapper (Streams app) [] {}")
    case (Inl err)
    with Cons.prems have "err = e" "apps' = app # apps" by simp_all
    with Inl show ?thesis
      by (intro exI [of _ 0]) simp
  next
    case (Inr transformed)
    then have d: "distinct (new_names mapper app)"
      and tr: "transformed = map (renamed mapper) (Streams app)"
      by (simp_all add: streams_Inr_iff new_names_def)
    obtain r rest where rest: "rename_apps mapper apps = (r, rest)"
      by (cases "rename_apps mapper apps")
    with Cons.prems Inr have r: "r = Some e" and apps': "apps' = app\<lparr>Streams := transformed\<rparr> # rest"
      by simp_all
    from Cons.IH [of rest] rest r obtain k where k: "k < length apps"
      "\<forall>j < k. distinct (new_names mapper (apps ! j))"
      "WithStreamMapper_streams mapper (Streams (apps ! k)) [] {} = Inl e"
      "rest = map (rename_app mapper) (take k apps) @ drop k apps"
      by blast
    have "\<forall>j < Suc k. distinct (new_names mapper ((app # apps) ! j))"
      using d k(2) by (simp add: nth_Cons split: nat.splits)
    with k(1,3,4) apps' tr show ?thesis
      by (intro exI [of _ "Suc k"]) (simp add: rename_app_def)
  qed
qed

lemma rename_apps_length:
  "length (snd (rename_apps mapper apps)) = length apps"
  by (induction apps) (auto split: sum.splits prod.splits)

lemma stream_names [simp]:
  "Stream.Name stream_a = ''stream_a''" "Stream.Name stream_b = ''stream_b''"
  by (simp_all add: stream_a_def stream_b_def zero_Stream_def)

text \<open>
  Claim C3, as the code has it. When the mutator returned by \<^verbatim>\<open>WithStreamMapper\<close> returns
  an error, there is an application \<open>k\<close> whose streams received a duplicate name; that
  application and every application after it are exactly as before the call, every
  application before it has already had its streams renamed, and nothing else of the
  \<^verbatim>\<open>Stats\<close> has changed. The failed call is atomic per application, not for the whole
  \<^verbatim>\<open>Stats\<close>.
\<close>

theorem WithStreamMapper_failure_scope:
  assumes "WithStreamMapper mapper s = (Some e, s')"
  shows "\<exists>k < length (Applications s).
           \<not> distinct (map (\<lambda>stream. mapper (Stream.Name stream)) (Streams (Applications s ! k)))
         \<and> s' = s\<lparr>Applications :=
                     map (\<lambda>app. app\<lparr>Streams :=
                            map (\<lambda>stream. stream\<lparr>Stream.Name := mapper (Stream.Name stream)\<rparr>)
                              (Streams app)\<rparr>)
                       (take k (Applications s))
                     @ drop k (Applications s)\<rparr>"
proof -
  from assms have e: "fst (rename_apps mapper (Applications s)) = Some e"
    and s': "s' = s\<lparr>Applications := snd (rename_apps mapper (Applications s))\<rparr>"
    by (simp_all add: WithStreamMapper_eq)
  from s' have "Applications s' = snd (rename_apps mapper (Applications s))"
    by simp
  with e have r: "rename_apps mapper (Applications s) = (Some e, Applications s')"
    by (simp add: prod_eq_iff)
  from rename_apps_Some [OF r] obtain k where k: "k < length (Applications s)"
    "WithStreamMapper_streams mapper (Streams (Applications s ! k)) [] {} = Inl e"
    "Applications s' = map (rename_app mapper) (take k (Applications s)) @ drop k (Applications s)"
    by blast
  have "\<not> distinct (new_names mapper (Applications s ! k))"
    using k(2) streams_ok [of mapper "Applications s ! k"] by auto
  moreover have "snd (rename_apps mapper (Applications s)) = Applications s'"
    using r by simp
  ultimately show ?thesis
    using k(1,3) s'
    by (intro exI [of _ k]) (simp add: new_names_def rename_app_def renamed_def [abs_def])
qed

text \<open>
  The failing call on two applications, the first with one stream, the second with two:
  the first application is left renamed, the second untouched.
\<close>

theorem WithStreamMapper_failure_scope_witness:
  "WithStreamMapper whoops two_apps =
     (Some (StreamExists ''whoops''),
      two_apps\<lparr>Applications :=
        [zero_Application\<lparr>Application.Name := ''first'',
           Streams := [stream_a\<lparr>Stream.Name := ''whoops''\<rparr>]\<rparr>,
         zero_Application\<lparr>Application.Name := ''second'', Streams := [stream_a, stream_b]\<rparr>]\<rparr>)
   \<and> (\<exists>k < length (Applications two_apps).
           \<not> distinct (map (\<lambda>stream. whoops (Stream.Name stream))
                  (Streams (Applications two_apps ! k)))
         \<and> two_apps\<lparr>Applications :=
              [zero_Application\<lparr>Application.Name := ''first'',
                 Streams := [stream_a\<lparr>Stream.Name := ''whoops''\<rparr>]\<rparr>,
               zero_Application\<lparr>Application.Name := ''second'',
                 Streams := [stream_a, stream_b]\<rparr>]\<rparr>
             = two_apps\<lparr>Applications :=
                 map (\<lambda>app. app\<lparr>Streams :=
                        map (\<lambda>stream. stream\<lparr>Stream.Name := whoops (Stream.Name stream)\<rparr>)
                          (Streams app)\<rparr>)
                   (take k (Applications two_apps))
                 @ drop k (Applications two_apps)\<rparr>)"
proof -
  have run: "WithStreamMapper whoops two_apps =
     (Some (StreamExists ''whoops''),
      two_apps\<lparr>Applications :=
        [zero_Application\<lparr>Application.Name := ''first'',
           Streams := [stream_a\<lparr>Stream.Name := ''whoops''\<rparr>]\<rparr>,
         zero_Application\<lparr>Application.Name := ''second'', Streams := [stream_a, stream_b]\<rparr>]\<rparr>)"
    by (simp add: WithStreamMapper_def WithStreamMapper_apps.simps two_apps_def whoops_def
          zero_Application_def zero_Stats_def)
  from run WithStreamMapper_failure_scope [OF run] show ?thesis
    by (rule conjI)
qed

text \<open>
  Claim C3 as stated fails: on \<open>two_apps\<close> the call returns an error, and the stream list
  of the first application, which is not the one where the duplicate arose, is no longer
  what it was before the call.
\<close>

theorem WithStreamMapper_partial_counterexample:
  "fst (WithStreamMapper whoops two_apps) = Some (StreamExists ''whoops'')
   \<and> Streams (Applications (snd (WithStreamMapper whoops two_apps)) ! 0)
       = [stream_a\<lparr>Stream.Name := ''whoops''\<rparr>]
   \<and> Streams (Applications two_apps ! 0) = [stream_a]
   \<and> [stream_a\<lparr>Stream.Name := ''whoops''\<rparr>] \<noteq> [stream_a]"
proof -
  have neq: "stream_a\<lparr>Stream.Name := ''whoops''\<rparr> \<noteq> stream_a"
  proof
    assume "stream_a\<lparr>Stream.Name := ''whoops''\<rparr> = stream_a"
    then have "Stream.Name (stream_a\<lparr>Stream.Name := ''whoops''\<rparr>) = Stream.Name stream_a"
      by simp
    then show False by simp
  qed
  then show ?thesis
    by (simp add: WithStreamMapper_def WithStreamMapper_apps.simps two_apps_def whoops_def
          zero_Application_def zero_Stats_def)
qed

text \<open>
  The error need not name the name duplicated in the application at hand. In
  \<open>letter_apps\<close> both streams of the second application receive the name \<^verbatim>\<open>b\<close>, and
  the call fails in the first application, where both streams receive the name \<^verbatim>\<open>a\<close>:
  the error names \<^verbatim>\<open>a\<close>, which no stream of the second application receives.
\<close>

theorem WithStreamMapper_collision_counterexample:
  "1 < length (Applications letter_apps)
   \<and> length (Streams (Applications letter_apps ! 1)) = 2
   \<and> new_names first_letter (Applications letter_apps ! 1) = [''b'', ''b'']
   \<and> fst (WithStreamMapper first_letter letter_apps) = Some (StreamExists ''a'')
   \<and> ''a'' \<notin> set (new_names first_letter (Applications letter_apps ! 1))
   \<and> Applications (snd (WithStreamMapper first_letter letter_apps)) = Applications letter_apps"
  by (simp add: WithStreamMapper_def WithStreamMapper_apps.simps letter_apps_def
        first_letter_def new_names_def zero_Application_def zero_Stats_def zero_Stream_def)

text \<open>
  Claim C4, as the code has it. If two streams of application \<open>i\<close> receive the same new
  name, the mutator fails with the error \<^verbatim>\<open>a stream with the name ... already exists\<close>,
  and the stream list of application \<open>i\<close> is what it was before the call. The name in the
  error is a new name shared by two streams of the first application \<open>k\<close> in which a
  collision arises: this is application \<open>i\<close> itself, and the name one that two of its
  streams receive, when no application before it collides. When the mapper sends every
  name of application \<open>i\<close> to one constant and no application before it collides, or when
  it sends every name whatsoever to one constant, that constant is the name in the error.
\<close>

theorem WithStreamMapper_collision:
  assumes "i < length (Applications s)"
    and "p < q" and "q < length (Streams (Applications s ! i))"
    and "mapper (Stream.Name (Streams (Applications s ! i) ! p))
           = mapper (Stream.Name (Streams (Applications s ! i) ! q))"
  shows "\<exists>name s'.
           WithStreamMapper mapper s = (Some (StreamExists name), s')
         \<and> Streams (Applications s' ! i) = Streams (Applications s ! i)
         \<and> (\<exists>k \<le> i.
               (\<forall>j < k. distinct (map (\<lambda>stream. mapper (Stream.Name stream))
                                  (Streams (Applications s ! j))))
             \<and> (\<exists>p' q'. p' < q' \<and> q' < length (Streams (Applications s ! k))
                    \<and> mapper (Stream.Name (Streams (Applications s ! k) ! p')) = name
                    \<and> mapper (Stream.Name (Streams (Applications s ! k) ! q')) = name))
         \<and> ((\<forall>j < i. distinct (map (\<lambda>stream. mapper (Stream.Name stream))
                                   (Streams (Applications s ! j)))) \<longrightarrow>
              (\<exists>p' q'. p' < q' \<and> q' < length (Streams (Applications s ! i))
                    \<and> mapper (Stream.Name (Streams (Applications s ! i) ! p')) = name
                    \<and> mapper (Stream.Name (Streams (Applications s ! i) ! q')) = name))
         \<and> (\<forall>c. (\<forall>j < i. distinct (map (\<lambda>stream. mapper (Stream.Name stream))
                                       (Streams (Applications s ! j))))
                \<and> (\<forall>stream \<in> set (Streams (Applications s ! i)).
                       mapper (Stream.Name stream) = c) \<longrightarrow> name = c)
         \<and> (\<forall>c. (\<forall>x. mapper x = c) \<longrightarrow> name = c)"
proof -
  let ?apps = "Applications s"
  have dup: "\<not> distinct (new_names mapper (?apps ! i))"
  proof
    assume "distinct (new_names mapper (?apps ! i))"
    moreover have "p < length (new_names mapper (?apps ! i))"
      "q < length (new_names mapper (?apps ! i))"
      "new_names mapper (?apps ! i) ! p = new_names mapper (?apps ! i) ! q"
      using assms(2-4) by (simp_all add: new_names_def)
    ultimately have "p = q"
      by (simp add: nth_eq_iff_index_eq)
    with assms(2) show False by simp
  qed
  have "fst (rename_apps mapper ?apps) \<noteq> None"
  proof
    assume "fst (rename_apps mapper ?apps) = None"
    from rename_apps_None [OF this] assms(1) have "distinct (new_names mapper (?apps ! i))"
      by simp
    with dup show False by simp
  qed
  then obtain e where e: "fst (rename_apps mapper ?apps) = Some e"
    by auto
  define apps' where "apps' = snd (rename_apps mapper ?apps)"
  have r: "rename_apps mapper ?apps = (Some e, apps')"
    using e by (simp add: apps'_def prod_eq_iff)
  from rename_apps_Some [OF r] obtain k where k: "k < length ?apps"
    "\<forall>j < k. distinct (new_names mapper (?apps ! j))"
    "WithStreamMapper_streams mapper (Streams (?apps ! k)) [] {} = Inl e"
    "apps' = map (rename_app mapper) (take k ?apps) @ drop k ?apps"
    by blast
  have ki: "k \<le> i"
    using k(2) dup by (meson not_le_imp_less)
  from streams_Inl [OF k(3)] obtain name q' p' where n: "e = StreamExists name"
    "q' < length (Streams (?apps ! k))" "mapper (Stream.Name (Streams (?apps ! k) ! q')) = name"
    "p' < q'" "mapper (Stream.Name (Streams (?apps ! k) ! p')) = name"
    by auto
  have same: "apps' ! i = ?apps ! i"
    using ki k(1) assms(1) by (simp add: k(4) nth_append)
  have run: "WithStreamMapper mapper s = (Some (StreamExists name), s\<lparr>Applications := apps'\<rparr>)"
    using r n(1) by (simp add: WithStreamMapper_eq)
  have first: "\<forall>j < k. distinct (map (\<lambda>stream. mapper (Stream.Name stream))
                                  (Streams (Applications s ! j)))"
    using k(2) by (simp add: new_names_def)
  have const: "\<forall>c. (\<forall>x. mapper x = c) \<longrightarrow> name = c"
    using n(3) by auto
  have here: "\<exists>p' q'. p' < q' \<and> q' < length (Streams (Applications s ! i))
                    \<and> mapper (Stream.Name (Streams (Applications s ! i) ! p')) = name
                    \<and> mapper (Stream.Name (Streams (Applications s ! i) ! q')) = name"
    if "\<forall>j < i. distinct (map (\<lambda>stream. mapper (Stream.Name stream))
                                   (Streams (Applications s ! j)))"
  proof -
    have "\<not> distinct (new_names mapper (?apps ! k))"
      using k(3) streams_ok [of mapper "?apps ! k"] by auto
    with that have "\<not> k < i"
      by (auto simp: new_names_def)
    with ki have "k = i" by simp
    with n(2-5) show ?thesis by blast
  qed
  have some: "\<exists>k \<le> i.
               (\<forall>j < k. distinct (map (\<lambda>stream. mapper (Stream.Name stream))
                                  (Streams (Applications s ! j))))
             \<and> (\<exists>p' q'. p' < q' \<and> q' < length (Streams (Applications s ! k))
                    \<and> mapper (Stream.Name (Streams (Applications s ! k) ! p')) = name
                    \<and> mapper (Stream.Name (Streams (Applications s ! k) ! q')) = name)"
    using ki first n(2-5) by blast
  have unchanged: "Streams (Applications (s\<lparr>Applications := apps'\<rparr>) ! i)
                     = Streams (Applications s ! i)"
    using same by simp
  have local: "name = c"
    if "(\<forall>j < i. distinct (map (\<lambda>stream. mapper (Stream.Name stream))
                                       (Streams (Applications s ! j))))
        \<and> (\<forall>stream \<in> set (Streams (Applications s ! i)).
               mapper (Stream.Name stream) = c)" for c
  proof -
    from that here obtain p' q' where pq: "p' < q'" "q' < length (Streams (Applications s ! i))"
      "mapper (Stream.Name (Streams (Applications s ! i) ! q')) = name"
      by blast
    from pq(2) have "Streams (Applications s ! i) ! q' \<in> set (Streams (Applications s ! i))"
      by simp
    with that have "mapper (Stream.Name (Streams (Applications s ! i) ! q')) = c"
      by blast
    with pq(3) show ?thesis by simp
  qed
  from run unchanged some here local const show ?thesis
    by blast
qed

text \<open>
  The test \<^verbatim>\<open>TestWithStreamMapper/duplicates\<close>: both streams are mapped to \<^verbatim>\<open>whoops\<close>.
\<close>

theorem WithStreamMapper_collision_witness:
  "0 < length (Applications test_streams) \<and> (0::nat) < 1
   \<and> 1 < length (Streams (Applications test_streams ! 0))
   \<and> whoops (Stream.Name (Streams (Applications test_streams ! 0) ! 0))
       = whoops (Stream.Name (Streams (Applications test_streams ! 0) ! 1))
   \<and> WithStreamMapper whoops test_streams = (Some (StreamExists ''whoops''), test_streams)
   \<and> StreamExists_text ''whoops'' = ''a stream with the name whoops already exists''"
proof -
  have h1: "0 < length (Applications test_streams)"
    and h2: "(0::nat) < 1"
    and h3: "1 < length (Streams (Applications test_streams ! 0))"
    and h4: "whoops (Stream.Name (Streams (Applications test_streams ! 0) ! 0))
               = whoops (Stream.Name (Streams (Applications test_streams ! 0) ! 1))"
    by (simp_all add: test_streams_def zero_Stats_def zero_Application_def whoops_def)
  from WithStreamMapper_collision [OF h1 h2 h3 h4] obtain name s' where
    run: "WithStreamMapper whoops test_streams = (Some (StreamExists name), s')"
    and st: "Streams (Applications s' ! 0) = Streams (Applications test_streams ! 0)"
    and c: "\<forall>c. (\<forall>x. whoops x = c) \<longrightarrow> name = c"
    by blast
  from c have name: "name = ''whoops''"
    by (simp add: whoops_def)
  have "WithStreamMapper whoops test_streams = (Some (StreamExists ''whoops''), test_streams)"
    by (simp add: WithStreamMapper_def WithStreamMapper_apps.simps test_streams_def whoops_def
          zero_Application_def zero_Stats_def)
  with h1 h2 h3 h4 run name show ?thesis
    by (simp add: StreamExists_text_def)
qed

text \<open>
  Claim C7, as the code has it. The identity mapper never changes the \<^verbatim>\<open>Stats\<close>, and it
  returns no error exactly when no application holds two streams of the same name
  already; on such an application it fails like any other mapper: the error it returns is
  the collision error, for a name that two streams of one application have.
\<close>

theorem WithStreamMapper_identity:
  "snd (WithStreamMapper id s) = s
   \<and> (fst (WithStreamMapper id s) = None
        \<longleftrightarrow> (\<forall>app \<in> set (Applications s). distinct (map Stream.Name (Streams app))))
   \<and> (\<forall>e. fst (WithStreamMapper id s) = Some e \<longrightarrow>
          (\<exists>name. e = StreamExists name
             \<and> (\<exists>app \<in> set (Applications s). \<exists>p q. p < q \<and> q < length (Streams app)
                    \<and> Stream.Name (Streams app ! p) = name
                    \<and> Stream.Name (Streams app ! q) = name)))"
proof -
  have kind: "\<exists>name. e = StreamExists name
             \<and> (\<exists>app \<in> set (Applications s). \<exists>p q. p < q \<and> q < length (Streams app)
                    \<and> Stream.Name (Streams app ! p) = name
                    \<and> Stream.Name (Streams app ! q) = name)"
    if "fst (WithStreamMapper id s) = Some e" for e
  proof -
    from that have "rename_apps id (Applications s)
                      = (Some e, snd (rename_apps id (Applications s)))"
      by (simp add: WithStreamMapper_eq prod_eq_iff)
    from rename_apps_Some [OF this] obtain k where k: "k < length (Applications s)"
      "WithStreamMapper_streams id (Streams (Applications s ! k)) [] {} = Inl e"
      by blast
    from streams_Inl [OF k(2)] obtain name q p where n: "e = StreamExists name"
      "q < length (Streams (Applications s ! k))"
      "Stream.Name (Streams (Applications s ! k) ! q) = name"
      "p < q" "Stream.Name (Streams (Applications s ! k) ! p) = name"
      by auto
    from k(1) have "Applications s ! k \<in> set (Applications s)"
      by simp
    with n show ?thesis by blast
  qed
  have same: "rename_app id = (id :: 'b Application \<Rightarrow> 'b Application)"
    by (simp add: fun_eq_iff rename_app_def renamed_def [abs_def])
  have names: "new_names id app = map Stream.Name (Streams app)" for app :: "'b Application"
    by (simp add: new_names_def)
  show ?thesis
  proof (cases "\<forall>app \<in> set (Applications s). distinct (map Stream.Name (Streams app))")
    case True
    then have "rename_apps id (Applications s) = (None, map (rename_app id) (Applications s))"
      by (intro rename_apps_ok) (simp add: names)
    with True have "snd (WithStreamMapper id s) = s
        \<and> (fst (WithStreamMapper id s) = None
             \<longleftrightarrow> (\<forall>app \<in> set (Applications s). distinct (map Stream.Name (Streams app))))"
      by (simp add: WithStreamMapper_eq same)
    with kind show ?thesis by blast
  next
    case False
    have "fst (rename_apps id (Applications s)) \<noteq> None"
    proof
      assume "fst (rename_apps id (Applications s)) = None"
      from rename_apps_None [OF this] False show False
        by (simp add: names)
    qed
    then obtain e where e: "fst (rename_apps id (Applications s)) = Some e"
      by auto
    then have "rename_apps id (Applications s) = (Some e, snd (rename_apps id (Applications s)))"
      by (simp add: prod_eq_iff)
    from rename_apps_Some [OF this] obtain k where k: "k < length (Applications s)"
      "snd (rename_apps id (Applications s))
         = map (rename_app id) (take k (Applications s)) @ drop k (Applications s)"
      by blast
    from k(2) have "snd (rename_apps id (Applications s)) = Applications s"
      by (simp add: same)
    with e False have "snd (WithStreamMapper id s) = s
        \<and> (fst (WithStreamMapper id s) = None
             \<longleftrightarrow> (\<forall>app \<in> set (Applications s). distinct (map Stream.Name (Streams app))))"
      by (simp add: WithStreamMapper_eq)
    with kind show ?thesis by blast
  qed
qed

text \<open>
  On the two distinct stream names of the package's test the identity mapper succeeds
  and changes nothing.
\<close>

theorem WithStreamMapper_identity_witness:
  "WithStreamMapper id test_streams = (None, test_streams)"
proof -
  have "\<forall>app \<in> set (Applications test_streams). distinct (map Stream.Name (Streams app))"
    by (simp add: test_streams_def zero_Stats_def zero_Application_def)
  with WithStreamMapper_identity [of test_streams] show ?thesis
    by (simp add: prod_eq_iff)
qed

text \<open>
  Claim C7 as stated fails: an application with two streams both named \<^verbatim>\<open>stream_a\<close>
  makes the identity mapper return the collision error.
\<close>

theorem WithStreamMapper_identity_counterexample:
  "fst (WithStreamMapper id same_names) = Some (StreamExists ''stream_a'')"
  by (simp add: WithStreamMapper_def WithStreamMapper_apps.simps same_names_def
        zero_Application_def zero_Stats_def)

section \<open>WithClientMapper\<close>

lemma ID_Add [simp]: "ID (Add a c) = ID a"
  by (simp add: Add_def Let_def)

lemma map_ID_merge_into:
  "map ID (merge_into c agg) = (if ID c \<in> ID ` set agg then map ID agg else map ID agg @ [ID c])"
  by (induction agg) auto

lemma merge_into_new:
  "ID c \<notin> ID ` set agg \<Longrightarrow> merge_into c agg = agg @ [c]"
  by (induction agg) auto

lemma merge_into_at:
  "distinct (map ID agg) \<Longrightarrow> i < length agg \<Longrightarrow> ID (agg ! i) = ID c \<Longrightarrow>
   merge_into c agg = agg[i := Add (agg ! i) c]"
proof (induction agg arbitrary: i)
  case Nil
  then show ?case by simp
next
  case (Cons a as)
  show ?case
  proof (cases i)
    case 0
    with Cons.prems show ?thesis by simp
  next
    case (Suc k)
    with Cons.prems have k: "k < length as" "ID (as ! k) = ID c" by simp_all
    then have "ID c \<in> ID ` set as"
      by (metis imageI nth_mem)
    with Cons.prems(1) have "ID a \<noteq> ID c" by auto
    with Cons.IH [OF _ k] Cons.prems(1) Suc show ?thesis by simp
  qed
qed

lemma lookup_ok_empty: "lookup_ok [] Map.empty"
  by (simp add: lookup_ok_def)

lemma lookup_ok_new:
  assumes "lookup_ok agg lk" and "lk (ID c) = None"
  shows "lookup_ok (agg @ [c]) (lk(ID c \<mapsto> length agg))"
    and "ID c \<notin> ID ` set agg"
proof -
  from assms show new: "ID c \<notin> ID ` set agg"
    unfolding lookup_ok_def by (metis option.simps(4))
  have "case (lk(ID c \<mapsto> length agg)) name of
          None \<Rightarrow> name \<notin> ID ` set (agg @ [c])
        | Some i \<Rightarrow> i < length (agg @ [c]) \<and> ID ((agg @ [c]) ! i) = name" for name
  proof (cases "name = ID c")
    case True
    then show ?thesis by simp
  next
    case False
    from assms(1) have "case lk name of None \<Rightarrow> name \<notin> ID ` set agg
                        | Some i \<Rightarrow> i < length agg \<and> ID (agg ! i) = name"
      unfolding lookup_ok_def by blast
    with False show ?thesis
      by (auto simp: nth_append split: option.splits)
  qed
  moreover have "distinct (map ID (agg @ [c]))"
    using assms(1) new by (simp add: lookup_ok_def)
  ultimately show "lookup_ok (agg @ [c]) (lk(ID c \<mapsto> length agg))"
    unfolding lookup_ok_def by blast
qed

lemma lookup_ok_dup:
  assumes "lookup_ok agg lk" and "lk (ID c) = Some i"
  shows "i < length agg" and "ID (agg ! i) = ID c"
    and "lookup_ok (agg[i := Add (agg ! i) c]) lk"
proof -
  from assms have "case lk (ID c) of None \<Rightarrow> ID c \<notin> ID ` set agg
                   | Some i \<Rightarrow> i < length agg \<and> ID (agg ! i) = ID c"
    unfolding lookup_ok_def by blast
  with assms(2) show i: "i < length agg" and id: "ID (agg ! i) = ID c" by simp_all
  let ?agg' = "agg[i := Add (agg ! i) c]"
  have ids: "map ID ?agg' = map ID agg"
    using i by (simp add: map_update list_update_same_conv)
  have nth: "ID (?agg' ! k) = ID (agg ! k)" if "k < length agg" for k
    using that i by (cases "k = i") simp_all
  have "set (map ID ?agg') = set (map ID agg)"
    using ids by simp
  then have img: "ID ` set ?agg' = ID ` set agg"
    by simp
  have "case lk name of None \<Rightarrow> name \<notin> ID ` set ?agg'
        | Some k \<Rightarrow> k < length ?agg' \<and> ID (?agg' ! k) = name" for name
  proof -
    from assms(1) have *: "case lk name of None \<Rightarrow> name \<notin> ID ` set agg
                        | Some k \<Rightarrow> k < length agg \<and> ID (agg ! k) = name"
      unfolding lookup_ok_def by blast
    show ?thesis
    proof (cases "lk name")
      case None
      with * show ?thesis by (simp add: img)
    next
      case (Some k)
      with * have "k < length agg" "ID (agg ! k) = name" by simp_all
      with Some nth [of k] show ?thesis by simp
    qed
  qed
  moreover have "distinct (map ID ?agg')"
    using assms(1) ids by (simp add: lookup_ok_def)
  ultimately show "lookup_ok ?agg' lk"
    unfolding lookup_ok_def by blast
qed

lemma WithClientMapper_clients_eq:
  "lookup_ok agg lk \<Longrightarrow>
   WithClientMapper_clients mapper streamName clients agg lk
     = Inr (merge_all agg (map (remap mapper streamName) clients))"
proof (induction clients arbitrary: agg lk)
  case Nil
  show ?case by (simp add: merge_all_def)
next
  case (Cons client rest)
  let ?c = "remap mapper streamName client"
  show ?case
  proof (cases "lk (ID ?c)")
    case None
    from lookup_ok_new [OF Cons.prems None]
    have ok: "lookup_ok (agg @ [?c]) (lk(ID ?c \<mapsto> length agg))"
      and new: "ID ?c \<notin> ID ` set agg" .
    have "WithClientMapper_clients mapper streamName (client # rest) agg lk
            = WithClientMapper_clients mapper streamName rest (agg @ [?c])
                (lk(ID ?c \<mapsto> length agg))"
      using None by (simp add: remap_def Let_def)
    also have "\<dots> = Inr (merge_all (agg @ [?c]) (map (remap mapper streamName) rest))"
      by (rule Cons.IH [OF ok])
    finally show ?thesis
      by (simp add: merge_all_def merge_into_new [OF new])
  next
    case (Some i)
    from lookup_ok_dup [OF Cons.prems Some]
    have i: "i < length agg" and id: "ID (agg ! i) = ID ?c"
      and ok: "lookup_ok (agg[i := Add (agg ! i) ?c]) lk" .
    have d: "distinct (map ID agg)"
      using Cons.prems by (simp add: lookup_ok_def)
    have "WithClientMapper_clients mapper streamName (client # rest) agg lk
            = WithClientMapper_clients mapper streamName rest (agg[i := Add (agg ! i) ?c]) lk"
      using Some i by (simp add: remap_def Let_def)
    also have "\<dots> = Inr (merge_all (agg[i := Add (agg ! i) ?c])
                          (map (remap mapper streamName) rest))"
      by (rule Cons.IH [OF ok])
    finally show ?thesis
      by (simp add: merge_all_def merge_into_at [OF d i id])
  qed
qed

lemma WithClientMapper_clients_start:
  "WithClientMapper_clients mapper streamName clients [] Map.empty
     = Inr (aggregate mapper streamName clients)"
  by (simp add: WithClientMapper_clients_eq lookup_ok_empty aggregate_def)

lemma WithClientMapper_streams_eq:
  "appIdx < length (Applications s) \<Longrightarrow>
   streamIdx \<le> length (Streams (Applications s ! appIdx)) \<Longrightarrow>
   WithClientMapper_streams mapper appIdx streamIdx s =
     (None, s\<lparr>Applications := (Applications s)[appIdx := (Applications s ! appIdx)
        \<lparr>Streams := take streamIdx (Streams (Applications s ! appIdx))
                    @ map (aggregate_stream mapper)
                        (drop streamIdx (Streams (Applications s ! appIdx)))\<rparr>]\<rparr>)"
proof (induction mapper appIdx streamIdx s rule: WithClientMapper_streams.induct)
  case (1 mapper appIdx streamIdx s)
  let ?apps = "Applications s"
  let ?app = "?apps ! appIdx"
  let ?sts = "Streams ?app"
  show ?case
  proof (cases "streamIdx < length ?sts")
    case False
    with "1.prems" have "streamIdx = length ?sts" by simp
    then show ?thesis
      by (subst WithClientMapper_streams.simps) (simp add: list_update_same_conv)
  next
    case True
    let ?stream = "?sts ! streamIdx"
    let ?new = "?stream\<lparr>Clients := aggregate mapper (Stream.Name ?stream) (Clients ?stream)\<rparr>"
    let ?s' = "s\<lparr>Applications := ?apps[appIdx := ?app\<lparr>Streams := ?sts[streamIdx := ?new]\<rparr>]\<rparr>"
    have step: "WithClientMapper_streams mapper appIdx streamIdx s
                  = WithClientMapper_streams mapper appIdx (Suc streamIdx) ?s'"
      using True
      by (subst WithClientMapper_streams.simps) (simp add: WithClientMapper_clients_start Let_def)
    have a': "appIdx < length (Applications ?s')"
      using "1.prems"(1) by simp
    have sts': "Streams (Applications ?s' ! appIdx) = ?sts[streamIdx := ?new]"
      using "1.prems"(1) by simp
    have j': "Suc streamIdx \<le> length (Streams (Applications ?s' ! appIdx))"
      using True "1.prems"(1) by simp
    have IH: "WithClientMapper_streams mapper appIdx (Suc streamIdx) ?s' =
      (None, ?s'\<lparr>Applications := (Applications ?s')[appIdx := (Applications ?s' ! appIdx)
         \<lparr>Streams := take (Suc streamIdx) (Streams (Applications ?s' ! appIdx))
                     @ map (aggregate_stream mapper)
                         (drop (Suc streamIdx) (Streams (Applications ?s' ! appIdx)))\<rparr>]\<rparr>)"
      by (rule "1.IH" [OF True refl WithClientMapper_clients_start a' j'])
    have tk: "take (Suc streamIdx) (?sts[streamIdx := ?new]) = take streamIdx ?sts @ [?new]"
      using True by (simp add: take_Suc_conv_app_nth)
    have dr: "drop streamIdx ?sts = ?stream # drop (Suc streamIdx) ?sts"
      using True by (simp add: Cons_nth_drop_Suc)
    have "(Applications ?s')[appIdx := (Applications ?s' ! appIdx)
         \<lparr>Streams := take (Suc streamIdx) (Streams (Applications ?s' ! appIdx))
                     @ map (aggregate_stream mapper)
                         (drop (Suc streamIdx) (Streams (Applications ?s' ! appIdx)))\<rparr>]
        = ?apps[appIdx := ?app
         \<lparr>Streams := take streamIdx ?sts @ map (aggregate_stream mapper) (drop streamIdx ?sts)\<rparr>]"
      using "1.prems"(1) by (simp add: sts' tk dr aggregate_stream_def)
    with step IH show ?thesis by simp
  qed
qed

lemma WithClientMapper_streams_all:
  "appIdx < length (Applications s) \<Longrightarrow>
   WithClientMapper_streams mapper appIdx 0 s =
     (None, s\<lparr>Applications :=
               (Applications s)[appIdx := aggregate_app mapper (Applications s ! appIdx)]\<rparr>)"
  by (simp add: WithClientMapper_streams_eq aggregate_app_def)

lemma WithClientMapper_apps_eq:
  "appIdx \<le> length (Applications s) \<Longrightarrow>
   WithClientMapper_apps mapper appIdx s =
     (None, s\<lparr>Applications := take appIdx (Applications s)
                                @ map (aggregate_app mapper) (drop appIdx (Applications s))\<rparr>)"
proof (induction mapper appIdx s rule: WithClientMapper_apps.induct)
  case (1 mapper appIdx s)
  let ?apps = "Applications s"
  show ?case
  proof (cases "appIdx < length ?apps")
    case False
    with "1.prems" show ?thesis
      by (subst WithClientMapper_apps.simps) simp
  next
    case True
    let ?s' = "s\<lparr>Applications := ?apps[appIdx := aggregate_app mapper (?apps ! appIdx)]\<rparr>"
    have inner: "WithClientMapper_streams mapper appIdx 0 s = (None, ?s')"
      by (rule WithClientMapper_streams_all [OF True])
    have step: "WithClientMapper_apps mapper appIdx s = WithClientMapper_apps mapper (Suc appIdx) ?s'"
      using True by (subst WithClientMapper_apps.simps) (simp add: inner)
    have len: "Suc appIdx \<le> length (Applications ?s')"
      using True by simp
    have IH: "WithClientMapper_apps mapper (Suc appIdx) ?s' =
      (None, ?s'\<lparr>Applications := take (Suc appIdx) (Applications ?s')
                   @ map (aggregate_app mapper) (drop (Suc appIdx) (Applications ?s'))\<rparr>)"
      by (rule "1.IH" [OF True inner [symmetric] refl len])
    have tk: "take (Suc appIdx) (?apps[appIdx := aggregate_app mapper (?apps ! appIdx)])
                = take appIdx ?apps @ [aggregate_app mapper (?apps ! appIdx)]"
      using True by (simp add: take_Suc_conv_app_nth)
    have dr: "drop appIdx ?apps = ?apps ! appIdx # drop (Suc appIdx) ?apps"
      using True by (simp add: Cons_nth_drop_Suc)
    from step IH show ?thesis
      by (simp add: tk dr)
  qed
qed

lemma WithClientMapper_eq:
  "WithClientMapper mapper s =
     (None, s\<lparr>Applications := map (aggregate_app mapper) (Applications s)\<rparr>)"
  by (simp add: WithClientMapper_def WithClientMapper_apps_eq)

lemma merge_all_snoc: "merge_all agg (cs @ [c]) = merge_into c (merge_all agg cs)"
  by (simp add: merge_all_def)

lemma merge_all_Nil: "merge_all agg [] = agg"
  by (simp add: merge_all_def)

lemma first_seen_snoc:
  "rev (remdups (rev (xs @ [x]))) =
     (if x \<in> set xs then rev (remdups (rev xs)) else rev (remdups (rev xs)) @ [x])"
  by simp

lemma map_ID_merge_all:
  "map ID (merge_all [] cs) = rev (remdups (rev (map ID cs)))"
proof (induction cs rule: rev_induct)
  case Nil
  show ?case by (simp add: merge_all_Nil)
next
  case (snoc c cs)
  have "ID ` set (merge_all [] cs) = set (map ID (merge_all [] cs))"
    by simp
  also have "\<dots> = ID ` set cs"
    by (simp only: snoc.IH set_rev set_remdups set_map)
  finally have ids: "ID ` set (merge_all [] cs) = ID ` set cs" .
  show ?case
    by (simp add: merge_all_snoc map_ID_merge_into ids snoc.IH)
qed

lemma set_merge_into:
  "distinct (map ID agg) \<Longrightarrow> a \<in> set (merge_into c agg) \<Longrightarrow>
     (a \<in> set agg \<and> ID a \<noteq> ID c)
   \<or> (\<exists>b \<in> set agg. ID b = ID c \<and> a = Add b c)
   \<or> (ID c \<notin> ID ` set agg \<and> a = c)"
proof (induction agg)
  case Nil
  then show ?case by simp
next
  case (Cons b agg)
  show ?case
  proof (cases "ID b = ID c")
    case True
    with Cons.prems have "a = Add b c \<or> a \<in> set agg" by simp
    moreover have "ID a \<noteq> ID c" if "a \<in> set agg"
      using that Cons.prems(1) True by (metis distinct.simps(2) imageI list.simps(9) set_map)
    ultimately show ?thesis using True by auto
  next
    case False
    with Cons.prems have "a = b \<or> a \<in> set (merge_into c agg)" by simp
    then show ?thesis
    proof
      assume "a = b"
      with False show ?thesis by simp
    next
      assume "a \<in> set (merge_into c agg)"
      from Cons.IH [OF _ this] Cons.prems(1) False show ?thesis by auto
    qed
  qed
qed

lemma distinct_merge_all: "distinct (map ID (merge_all [] cs))"
  by (simp add: map_ID_merge_all)

lemma merge_all_members:
  "a \<in> set (merge_all [] cs) \<Longrightarrow>
   \<exists>x xs. filter (\<lambda>y. ID y = ID a) cs = x # xs \<and> a = foldl Add x xs"
proof (induction cs arbitrary: a rule: rev_induct)
  case Nil
  then show ?case by (simp add: merge_all_Nil)
next
  case (snoc c cs)
  let ?out = "merge_all [] cs"
  from snoc.prems have "a \<in> set (merge_into c ?out)"
    by (simp add: merge_all_snoc)
  from set_merge_into [OF distinct_merge_all this] consider
      (old) "a \<in> set ?out" "ID a \<noteq> ID c"
    | (merged) b where "b \<in> set ?out" "ID b = ID c" "a = Add b c"
    | (new) "ID c \<notin> ID ` set ?out" "a = c"
    by blast
  then show ?case
  proof cases
    case old
    from snoc.IH [OF old(1)] old(2) show ?thesis by simp
  next
    case merged
    from snoc.IH [OF merged(1)] obtain x xs where
      g: "filter (\<lambda>y. ID y = ID b) cs = x # xs" and b: "b = foldl Add x xs"
      by blast
    have "filter (\<lambda>y. ID y = ID a) (cs @ [c]) = x # (xs @ [c])"
      using g merged(2,3) by simp
    moreover have "a = foldl Add x (xs @ [c])"
      using b merged(3) by simp
    ultimately show ?thesis by blast
  next
    case new
    have "ID ` set ?out = set (map ID ?out)" by simp
    also have "\<dots> = ID ` set cs"
      by (simp only: map_ID_merge_all set_rev set_remdups set_map)
    finally have "ID c \<notin> ID ` set cs"
      using new(1) by simp
    then have "filter (\<lambda>y. ID y = ID c) cs = []"
      unfolding filter_empty_conv by (metis imageI)
    with new(2) show ?thesis by simp
  qed
qed

lemma Add_fields [simp]:
  "Address (Add a c) = Address a"
  "FlashVersion (Add a c) = FlashVersion a"
  "PageURL (Add a c) = PageURL a"
  "SWFURL (Add a c) = SWFURL a"
  "AVSync (Add a c) = AVSync a"
  "DroppedFrames (Add a c) = DroppedFrames a + DroppedFrames c"
  "EntriesCount (Add a c) = EntriesCount a + EntriesCount c"
  "Client.Active (Add a c) = (Client.Active a \<or> Client.Active c)"
  "Client.Publishing (Add a c) = (Client.Publishing a \<or> Client.Publishing c)"
  by (simp_all add: Add_def Let_def)

lemma Add_Uptime: "sint (Client.Uptime (Add a c)) = max (sint (Client.Uptime a)) (sint (Client.Uptime c))"
  by (simp add: Add_def Let_def word_sless_alt max_def)

lemma Add_Timestamp: "sint (Client.Timestamp (Add a c)) = max (sint (Client.Timestamp a)) (sint (Client.Timestamp c))"
  by (simp add: Add_def Let_def word_sless_alt max_def)

lemma foldl_Add_first:
  "ID (foldl Add x xs) = ID x"
  "Address (foldl Add x xs) = Address x"
  "FlashVersion (foldl Add x xs) = FlashVersion x"
  "PageURL (foldl Add x xs) = PageURL x"
  "SWFURL (foldl Add x xs) = SWFURL x"
  "AVSync (foldl Add x xs) = AVSync x"
  by (induction xs arbitrary: x) simp_all

lemma foldl_Add_sums:
  "DroppedFrames (foldl Add x xs) = sum_list (map DroppedFrames (x # xs))"
  "EntriesCount (foldl Add x xs) = sum_list (map EntriesCount (x # xs))"
  by (induction xs arbitrary: x) (simp_all add: add.assoc)

lemma foldl_Add_flags:
  "Client.Active (foldl Add x xs) \<longleftrightarrow> (\<exists>y \<in> set (x # xs). Client.Active y)"
  "Client.Publishing (foldl Add x xs) \<longleftrightarrow> (\<exists>y \<in> set (x # xs). Client.Publishing y)"
  by (induction xs arbitrary: x) auto

lemma Max_insert_max:
  "finite A \<Longrightarrow> Max (insert (max a b) A) = Max (insert (a::int) (insert b A))"
  by (cases "A = {}") (simp_all add: max.assoc)

lemma foldl_Add_Uptime:
  "sint (Client.Uptime (foldl Add x xs)) = Max ((\<lambda>y. sint (Client.Uptime y)) ` set (x # xs))"
proof (induction xs arbitrary: x)
  case Nil
  show ?case by simp
next
  case (Cons y ys)
  have "sint (Client.Uptime (foldl Add x (y # ys)))
          = Max ((\<lambda>y. sint (Client.Uptime y)) ` set (Add x y # ys))"
    using Cons.IH [of "Add x y"] by simp
  also have "\<dots> = Max (insert (max (sint (Client.Uptime x)) (sint (Client.Uptime y)))
                       ((\<lambda>y. sint (Client.Uptime y)) ` set ys))"
    by (simp add: Add_Uptime)
  also have "\<dots> = Max ((\<lambda>y. sint (Client.Uptime y)) ` set (x # y # ys))"
    by (simp add: Max_insert_max)
  finally show ?case .
qed

lemma foldl_Add_Timestamp:
  "sint (Client.Timestamp (foldl Add x xs)) = Max ((\<lambda>y. sint (Client.Timestamp y)) ` set (x # xs))"
proof (induction xs arbitrary: x)
  case Nil
  show ?case by simp
next
  case (Cons y ys)
  have "sint (Client.Timestamp (foldl Add x (y # ys)))
          = Max ((\<lambda>y. sint (Client.Timestamp y)) ` set (Add x y # ys))"
    using Cons.IH [of "Add x y"] by simp
  also have "\<dots> = Max (insert (max (sint (Client.Timestamp x)) (sint (Client.Timestamp y)))
                       ((\<lambda>y. sint (Client.Timestamp y)) ` set ys))"
    by (simp add: Add_Timestamp)
  also have "\<dots> = Max ((\<lambda>y. sint (Client.Timestamp y)) ` set (x # y # ys))"
    by (simp add: Max_insert_max)
  finally show ?case .
qed

lemma sum_merge_into:
  "sum_list (map EntriesCount (merge_into c agg)) = sum_list (map EntriesCount agg) + EntriesCount c"
  by (induction agg) (simp_all add: add.assoc add.commute add.left_commute)

lemma sum_merge_all:
  "sum_list (map EntriesCount (merge_all [] cs)) = sum_list (map EntriesCount cs)"
  by (induction cs rule: rev_induct) (simp_all add: merge_all_Nil merge_all_snoc sum_merge_into)

lemma EntriesCount_remap [simp]: "EntriesCount (remap mapper streamName c) = EntriesCount c"
  by (simp add: remap_def)

lemma sum_aggregate:
  "sum_list (map EntriesCount (aggregate mapper streamName cs)) = sum_list (map EntriesCount cs)"
  by (simp add: aggregate_def sum_merge_all comp_def)

lemma Clients_after:
  assumes "i < length (Applications s)" and "j < length (Streams (Applications s ! i))"
  shows "Clients (Streams (Applications (snd (WithClientMapper mapper s)) ! i) ! j)
           = aggregate mapper (Stream.Name (Streams (Applications s ! i) ! j))
               (Clients (Streams (Applications s ! i) ! j))"
  using assms by (simp add: WithClientMapper_eq aggregate_app_def aggregate_stream_def)

lemma merge_input_run:
  "WithClientMapper combineSums merge_input =
     (None, merge_input\<lparr>Applications :=
        [zero_Application\<lparr>Streams :=
           [(zero_Stream ())\<lparr>Stream.Name := ''stream'', NumClients := 3,
                             Clients := [merged_sum, other_a]\<rparr>]\<rparr>]\<rparr>)"
  by (simp add: WithClientMapper_def WithClientMapper_apps.simps WithClientMapper_streams.simps
        merge_input_def zero_Stats_def zero_Application_def zero_Stream_def
        sum_a_def sum_b_def other_a_def merged_sum_def combineSums_def Add_def
        Minute_def Second_def)

lemma group_remap:
  "filter (\<lambda>x. ID x = name) (map (remap mapper streamName) cs)
     = map (remap mapper streamName) (filter (\<lambda>x. mapper streamName (ID x) = name) cs)"
  by (induction cs) (simp_all add: remap_def)

lemma sum_ones:
  "\<forall>c \<in> set g. EntriesCount c = 1 \<Longrightarrow> sum_list (map EntriesCount g) = of_nat (length g)"
  by (induction g) simp_all

lemma sint_of_nat_64:
  "n < 2 ^ 63 \<Longrightarrow> sint (of_nat n :: 64 word) = int n"
proof -
  assume "n < 2 ^ 63"
  then have "int n < 2 ^ 63"
    by (metis of_nat_less_iff of_nat_numeral of_nat_power)
  then show ?thesis
    by (simp add: signed_of_nat signed_take_bit_int_eq_self)
qed

text \<open>
  Claim C2. For the stream at position \<open>j\<close> of application \<open>i\<close>, \<open>mapped\<close> are its
  clients with their identifiers rewritten by the mapper and \<open>out\<close> its clients after the
  mutator. The mutator returns no error; the identifiers of \<open>out\<close> are those of \<open>mapped\<close>
  in the order of their first occurrence, each once; and every client \<open>c\<close> of \<open>out\<close> is
  what \<^verbatim>\<open>Add\<close> gives when the clients of \<open>mapped\<close> with its identifier are folded from the
  left in encounter order: \<open>first\<close> is the accumulator, \<open>rest\<close> are folded in. Hence \<open>c\<close>
  keeps the address, player version, page URL, source URL and AV-sync offset of \<open>first\<close>,
  its dropped frames and entries count are the sums over the group, its uptime and
  timestamp the (signed) maxima, its active and publishing flags the disjunctions.
\<close>

theorem WithClientMapper_merges:
  assumes "i < length (Applications s)" and "j < length (Streams (Applications s ! i))"
  shows "(let stream = Streams (Applications s ! i) ! j;
              mapped = map (\<lambda>c. c\<lparr>ID := mapper (Stream.Name stream) (ID c)\<rparr>) (Clients stream);
              out = Clients (Streams (Applications (snd (WithClientMapper mapper s)) ! i) ! j)
          in fst (WithClientMapper mapper s) = None
           \<and> map ID out = rev (remdups (rev (map ID mapped)))
           \<and> (\<forall>c \<in> set out. \<exists>first rest.
                 filter (\<lambda>x. ID x = ID c) mapped = first # rest
               \<and> c = foldl Add first rest
               \<and> Address c = Address first
               \<and> FlashVersion c = FlashVersion first
               \<and> PageURL c = PageURL first
               \<and> SWFURL c = SWFURL first
               \<and> AVSync c = AVSync first
               \<and> DroppedFrames c = sum_list (map DroppedFrames (first # rest))
               \<and> sint (Client.Uptime c)
                   = Max ((\<lambda>x. sint (Client.Uptime x)) ` set (first # rest))
               \<and> sint (Client.Timestamp c) = Max ((\<lambda>x. sint (Client.Timestamp x)) ` set (first # rest))
               \<and> Client.Active c = (\<exists>x \<in> set (first # rest). Client.Active x)
               \<and> Client.Publishing c = (\<exists>x \<in> set (first # rest). Client.Publishing x)
               \<and> EntriesCount c = sum_list (map EntriesCount (first # rest))))"
proof -
  let ?stream = "Streams (Applications s ! i) ! j"
  let ?mapped = "map (remap mapper (Stream.Name ?stream)) (Clients ?stream)"
  let ?out = "Clients (Streams (Applications (snd (WithClientMapper mapper s)) ! i) ! j)"
  have out: "?out = merge_all [] ?mapped"
    using Clients_after [OF assms] by (simp add: aggregate_def)
  have ok: "fst (WithClientMapper mapper s) = None"
    by (simp add: WithClientMapper_eq)
  have order: "map ID ?out = rev (remdups (rev (map ID ?mapped)))"
    by (simp only: out map_ID_merge_all)
  have groups: "\<exists>first rest.
                 filter (\<lambda>x. ID x = ID c) ?mapped = first # rest
               \<and> c = foldl Add first rest
               \<and> Address c = Address first
               \<and> FlashVersion c = FlashVersion first
               \<and> PageURL c = PageURL first
               \<and> SWFURL c = SWFURL first
               \<and> AVSync c = AVSync first
               \<and> DroppedFrames c = sum_list (map DroppedFrames (first # rest))
               \<and> sint (Client.Uptime c)
                   = Max ((\<lambda>x. sint (Client.Uptime x)) ` set (first # rest))
               \<and> sint (Client.Timestamp c) = Max ((\<lambda>x. sint (Client.Timestamp x)) ` set (first # rest))
               \<and> Client.Active c = (\<exists>x \<in> set (first # rest). Client.Active x)
               \<and> Client.Publishing c = (\<exists>x \<in> set (first # rest). Client.Publishing x)
               \<and> EntriesCount c = sum_list (map EntriesCount (first # rest))"
    if "c \<in> set ?out" for c
  proof -
    from that have "c \<in> set (merge_all [] ?mapped)"
      by (simp only: out)
    from merge_all_members [OF this] obtain first rest where
      g: "filter (\<lambda>x. ID x = ID c) ?mapped = first # rest" and c: "c = foldl Add first rest"
      by blast
    show ?thesis
      apply (rule exI [of _ first], rule exI [of _ rest])
      apply (intro conjI)
                  apply (rule g)
                 apply (rule c)
                apply (simp only: c foldl_Add_first)
               apply (simp only: c foldl_Add_first)
              apply (simp only: c foldl_Add_first)
             apply (simp only: c foldl_Add_first)
            apply (simp only: c foldl_Add_first)
           apply (simp only: c foldl_Add_sums)
          apply (simp only: c foldl_Add_Uptime)
         apply (simp only: c foldl_Add_Timestamp)
        apply (simp only: c foldl_Add_flags)
       apply (simp only: c foldl_Add_flags)
      apply (simp only: c foldl_Add_sums)
      done
  qed
  have remap: "(\<lambda>c. c\<lparr>ID := mapper (Stream.Name ?stream) (ID c)\<rparr>)
                 = remap mapper (Stream.Name ?stream)"
    by (simp add: fun_eq_iff remap_def)
  show ?thesis
    unfolding Let_def remap
    using ok order groups by blast
qed

text \<open>
  The clients of \<^verbatim>\<open>TestWithClientMapper\<close>: \<^verbatim>\<open>sum_a\<close> and \<^verbatim>\<open>sum_b\<close> are merged into
  \<^verbatim>\<open>sum\<close>, which comes before \<^verbatim>\<open>other_a\<close>.
\<close>

theorem WithClientMapper_merges_witness:
  "0 < length (Applications merge_input)
   \<and> 0 < length (Streams (Applications merge_input ! 0))
   \<and> Clients (Streams (Applications (snd (WithClientMapper combineSums merge_input)) ! 0) ! 0)
       = [merged_sum, other_a]
   \<and> map ID (Clients (Streams (Applications (snd (WithClientMapper combineSums merge_input))
                                 ! 0) ! 0))
       = [''sum'', ''other_a'']"
proof -
  have h1: "0 < length (Applications merge_input)"
    and h2: "0 < length (Streams (Applications merge_input ! 0))"
    by (simp_all add: merge_input_def zero_Stats_def zero_Application_def)
  have out: "Clients (Streams (Applications (snd (WithClientMapper combineSums merge_input))
                                 ! 0) ! 0) = [merged_sum, other_a]"
    by (simp add: merge_input_run)
  have "map ID (Clients (Streams (Applications (snd (WithClientMapper combineSums merge_input))
                                 ! 0) ! 0))
          = rev (remdups (rev (map ID
              (map (\<lambda>c. c\<lparr>ID := combineSums (Stream.Name (Streams (Applications merge_input ! 0) ! 0))
                                     (ID c)\<rparr>)
                 (Clients (Streams (Applications merge_input ! 0) ! 0))))))"
    using WithClientMapper_merges [OF h1 h2, of combineSums] by (simp only: Let_def)
  also have "\<dots> = [''sum'', ''other_a'']"
    by (simp add: merge_input_def zero_Stats_def zero_Application_def zero_Stream_def
          sum_a_def sum_b_def other_a_def combineSums_def)
  finally show ?thesis
    using h1 h2 out by simp
qed

text \<open>
  Claim C9. The mutator returned by \<^verbatim>\<open>WithClientMapper\<close> keeps the sum of
  \<^verbatim>\<open>EntriesCount\<close> over the clients of every stream (sums of Go \<^verbatim>\<open>int\<close>, which wrap at
  64 bits). When every client of the stream has \<^verbatim>\<open>EntriesCount = 1\<close> before the call,
  each client after it counts the clients that were mapped to its identifier and the
  counts add up to the number of clients before; read as signed numbers these are the
  very numbers, for a stream of fewer than \<open>2 ^ 63\<close> clients.
\<close>

theorem WithClientMapper_EntriesCount:
  assumes "i < length (Applications s)" and "j < length (Streams (Applications s ! i))"
  shows "(let stream = Streams (Applications s ! i) ! j;
              before = Clients stream;
              after = Clients (Streams (Applications (snd (WithClientMapper mapper s)) ! i) ! j);
              merged_into = (\<lambda>c. filter (\<lambda>x. mapper (Stream.Name stream) (ID x) = ID c) before)
          in sum_list (map EntriesCount after) = sum_list (map EntriesCount before)
           \<and> ((\<forall>c \<in> set before. EntriesCount c = 1) \<longrightarrow>
                 (\<forall>c \<in> set after. EntriesCount c = of_nat (length (merged_into c)))
               \<and> sum_list (map EntriesCount after) = of_nat (length before)
               \<and> (length before < 2 ^ 63 \<longrightarrow>
                     (\<forall>c \<in> set after. sint (EntriesCount c) = int (length (merged_into c)))
                   \<and> sint (sum_list (map EntriesCount after)) = int (length before))))"
proof -
  let ?stream = "Streams (Applications s ! i) ! j"
  let ?name = "Stream.Name ?stream"
  let ?before = "Clients ?stream"
  let ?after = "Clients (Streams (Applications (snd (WithClientMapper mapper s)) ! i) ! j)"
  let ?into = "\<lambda>c. filter (\<lambda>x. mapper ?name (ID x) = ID c) ?before"
  have after: "?after = aggregate mapper ?name ?before"
    by (rule Clients_after [OF assms])
  have total: "sum_list (map EntriesCount ?after) = sum_list (map EntriesCount ?before)"
    by (simp only: after sum_aggregate)
  have fresh: "(\<forall>c \<in> set ?after. EntriesCount c = of_nat (length (?into c)))
             \<and> sum_list (map EntriesCount ?after) = of_nat (length ?before)
             \<and> (length ?before < 2 ^ 63 \<longrightarrow>
                   (\<forall>c \<in> set ?after. sint (EntriesCount c) = int (length (?into c)))
                 \<and> sint (sum_list (map EntriesCount ?after)) = int (length ?before))"
    if ones: "\<forall>c \<in> set ?before. EntriesCount c = 1"
  proof -
    have each: "EntriesCount c = of_nat (length (?into c))" if "c \<in> set ?after" for c
    proof -
      from that have "c \<in> set (merge_all [] (map (remap mapper ?name) ?before))"
        by (simp only: after aggregate_def)
      from merge_all_members [OF this] obtain first rest where
        g: "filter (\<lambda>x. ID x = ID c) (map (remap mapper ?name) ?before) = first # rest"
        and c: "c = foldl Add first rest"
        by blast
      have g': "first # rest = map (remap mapper ?name) (?into c)"
        using g by (simp only: group_remap)
      have "\<forall>x \<in> set (first # rest). EntriesCount x = 1"
        unfolding g' using ones by auto
      then have "sum_list (map EntriesCount (first # rest)) = of_nat (length (first # rest))"
        by (rule sum_ones)
      also have "length (first # rest) = length (?into c)"
        by (simp only: g' length_map)
      finally show ?thesis
        by (simp only: c foldl_Add_sums)
    qed
    have sum: "sum_list (map EntriesCount ?after) = of_nat (length ?before)"
      using total sum_ones [OF ones] by simp
    have small: "(\<forall>c \<in> set ?after. sint (EntriesCount c) = int (length (?into c)))
                 \<and> sint (sum_list (map EntriesCount ?after)) = int (length ?before)"
      if len: "length ?before < 2 ^ 63"
    proof -
      have lt: "length (?into c) < 2 ^ 63" for c :: Client
        by (rule le_less_trans [OF length_filter_le len])
      have "sint (EntriesCount c) = int (length (?into c))" if "c \<in> set ?after" for c
        by (simp only: each [OF that] sint_of_nat_64 [OF lt])
      moreover have "sint (sum_list (map EntriesCount ?after)) = int (length ?before)"
        using len by (simp only: sum sint_of_nat_64)
      ultimately show ?thesis by blast
    qed
    from each sum small show ?thesis by blast
  qed
  show ?thesis
    unfolding Let_def using total fresh by blast
qed

text \<open>
  Three clients counted once each are merged into two clients that count 2 and 1.
\<close>

theorem WithClientMapper_EntriesCount_witness:
  "0 < length (Applications merge_input)
   \<and> 0 < length (Streams (Applications merge_input ! 0))
   \<and> map EntriesCount (Clients (Streams (Applications merge_input ! 0) ! 0)) = [1, 1, 1]
   \<and> map EntriesCount
         (Clients (Streams (Applications (snd (WithClientMapper combineSums merge_input)) ! 0) ! 0))
       = [2, 1]
   \<and> sum_list (map EntriesCount
         (Clients (Streams (Applications (snd (WithClientMapper combineSums merge_input)) ! 0) ! 0)))
       = 3"
proof -
  have h1: "0 < length (Applications merge_input)"
    and h2: "0 < length (Streams (Applications merge_input ! 0))"
    and before: "map EntriesCount (Clients (Streams (Applications merge_input ! 0) ! 0)) = [1, 1, 1]"
    by (simp_all add: merge_input_def zero_Stats_def zero_Application_def
          sum_a_def sum_b_def other_a_def)
  have after: "map EntriesCount
         (Clients (Streams (Applications (snd (WithClientMapper combineSums merge_input)) ! 0) ! 0))
       = [2, 1]"
    by (simp add: merge_input_run merged_sum_def other_a_def)
  have "sum_list (map EntriesCount
         (Clients (Streams (Applications (snd (WithClientMapper combineSums merge_input)) ! 0) ! 0)))
       = sum_list (map EntriesCount (Clients (Streams (Applications merge_input ! 0) ! 0)))"
    using WithClientMapper_EntriesCount [OF h1 h2, of combineSums] by (simp only: Let_def)
  also have "\<dots> = 3"
    by (simp only: before) simp
  finally show ?thesis
    using h1 h2 before after by simp
qed

text \<open>
  Claim C10. The mutator returned by \<^verbatim>\<open>WithClientMapper\<close> returns no error and writes
  nothing but the \<^verbatim>\<open>Clients\<close> of each stream: the server-level fields, the number and
  names of the applications, the number of streams of each application and every
  field of every stream other than \<^verbatim>\<open>Clients\<close>, \<^verbatim>\<open>NumClients\<close> among them, are as before.
  So \<^verbatim>\<open>NumClients\<close> can be larger than the number of clients left after a merge: no
  stream has more clients than before, and a stream in which two clients receive the
  same new identifier has fewer.
\<close>

theorem WithClientMapper_frame:
  "(let s' = snd (WithClientMapper mapper s)
    in fst (WithClientMapper mapper s) = None
     \<and> s'\<lparr>Applications := Applications s\<rparr> = s
     \<and> length (Applications s') = length (Applications s)
     \<and> (\<forall>i < length (Applications s).
           (Applications s' ! i)\<lparr>Streams := Streams (Applications s ! i)\<rparr> = Applications s ! i
         \<and> length (Streams (Applications s' ! i)) = length (Streams (Applications s ! i))
         \<and> (\<forall>j < length (Streams (Applications s ! i)).
               (Streams (Applications s' ! i) ! j)
                  \<lparr>Clients := Clients (Streams (Applications s ! i) ! j)\<rparr>
                 = Streams (Applications s ! i) ! j
             \<and> NumClients (Streams (Applications s' ! i) ! j)
                 = NumClients (Streams (Applications s ! i) ! j))))
   \<and> (\<exists>(s0 :: (unit, unit) Stats) mapper0 i j.
         int (length (Clients (Streams (Applications (snd (WithClientMapper mapper0 s0)) ! i) ! j)))
           < sint (NumClients (Streams (Applications (snd (WithClientMapper mapper0 s0)) ! i) ! j)))
   \<and> (\<forall>i < length (Applications s). \<forall>j < length (Streams (Applications s ! i)).
         length (Clients (Streams (Applications (snd (WithClientMapper mapper s)) ! i) ! j))
           \<le> length (Clients (Streams (Applications s ! i) ! j))
       \<and> (\<not> distinct (map (\<lambda>c. mapper (Stream.Name (Streams (Applications s ! i) ! j)) (ID c))
                          (Clients (Streams (Applications s ! i) ! j))) \<longrightarrow>
            length (Clients (Streams (Applications (snd (WithClientMapper mapper s)) ! i) ! j))
              < length (Clients (Streams (Applications s ! i) ! j))))"
proof -
  have shorter: "length (Clients (Streams (Applications (snd (WithClientMapper mapper s)) ! i) ! j))
           \<le> length (Clients (Streams (Applications s ! i) ! j))
       \<and> (\<not> distinct (map (\<lambda>c. mapper (Stream.Name (Streams (Applications s ! i) ! j)) (ID c))
                          (Clients (Streams (Applications s ! i) ! j))) \<longrightarrow>
            length (Clients (Streams (Applications (snd (WithClientMapper mapper s)) ! i) ! j))
              < length (Clients (Streams (Applications s ! i) ! j)))"
    if ij: "i < length (Applications s)" "j < length (Streams (Applications s ! i))" for i j
  proof -
    let ?name = "Stream.Name (Streams (Applications s ! i) ! j)"
    let ?before = "Clients (Streams (Applications s ! i) ! j)"
    let ?ids = "map (\<lambda>c. mapper ?name (ID c)) ?before"
    have "length (aggregate mapper ?name ?before)
            = length (map ID (merge_all [] (map (remap mapper ?name) ?before)))"
      by (simp add: aggregate_def)
    also have "\<dots> = length (remdups (rev (map ID (map (remap mapper ?name) ?before))))"
      by (simp only: map_ID_merge_all length_rev)
    also have "map ID (map (remap mapper ?name) ?before) = ?ids"
      by (simp add: remap_def)
    finally have len: "length (aggregate mapper ?name ?before) = length (remdups (rev ?ids))" .
    have le: "length (remdups (rev ?ids)) \<le> length ?before"
      using length_remdups_leq [of "rev ?ids"] by simp
    have less: "length (remdups (rev ?ids)) < length ?before" if "\<not> distinct ?ids"
    proof -
      from that have "remdups (rev ?ids) \<noteq> rev ?ids"
        by (simp add: remdups_id_iff_distinct)
      then have "length (remdups (rev ?ids)) \<noteq> length (rev ?ids)"
        by (simp only: length_remdups_eq) simp
      with le show ?thesis by simp
    qed
    from le less show ?thesis
      by (simp only: Clients_after [OF ij] len) blast
  qed
  have frame: "fst (WithClientMapper mapper s) = None"
    "snd (WithClientMapper mapper s)\<lparr>Applications := Applications s\<rparr> = s"
    "length (Applications (snd (WithClientMapper mapper s))) = length (Applications s)"
    by (simp_all add: WithClientMapper_eq)
  have apps: "(Applications (snd (WithClientMapper mapper s)) ! i)
                 \<lparr>Streams := Streams (Applications s ! i)\<rparr> = Applications s ! i
            \<and> length (Streams (Applications (snd (WithClientMapper mapper s)) ! i))
                = length (Streams (Applications s ! i))
            \<and> (\<forall>j < length (Streams (Applications s ! i)).
                  (Streams (Applications (snd (WithClientMapper mapper s)) ! i) ! j)
                     \<lparr>Clients := Clients (Streams (Applications s ! i) ! j)\<rparr>
                    = Streams (Applications s ! i) ! j
                \<and> NumClients (Streams (Applications (snd (WithClientMapper mapper s)) ! i) ! j)
                    = NumClients (Streams (Applications s ! i) ! j))"
    if "i < length (Applications s)" for i
    using that by (simp add: WithClientMapper_eq aggregate_app_def aggregate_stream_def)
  have "int (length (Clients (Streams (Applications (snd (WithClientMapper combineSums merge_input))
                                        ! 0) ! 0)))
          < sint (NumClients (Streams (Applications (snd (WithClientMapper combineSums merge_input))
                                        ! 0) ! 0))"
    by (simp add: merge_input_run)
  then have ex: "\<exists>(s0 :: (unit, unit) Stats) mapper0 i j.
         int (length (Clients (Streams (Applications (snd (WithClientMapper mapper0 s0)) ! i) ! j)))
           < sint (NumClients (Streams (Applications (snd (WithClientMapper mapper0 s0)) ! i) ! j))"
    by blast
  from frame apps ex have "(let s' = snd (WithClientMapper mapper s)
    in fst (WithClientMapper mapper s) = None
     \<and> s'\<lparr>Applications := Applications s\<rparr> = s
     \<and> length (Applications s') = length (Applications s)
     \<and> (\<forall>i < length (Applications s).
           (Applications s' ! i)\<lparr>Streams := Streams (Applications s ! i)\<rparr> = Applications s ! i
         \<and> length (Streams (Applications s' ! i)) = length (Streams (Applications s ! i))
         \<and> (\<forall>j < length (Streams (Applications s ! i)).
               (Streams (Applications s' ! i) ! j)
                  \<lparr>Clients := Clients (Streams (Applications s ! i) ! j)\<rparr>
                 = Streams (Applications s ! i) ! j
             \<and> NumClients (Streams (Applications s' ! i) ! j)
                 = NumClients (Streams (Applications s ! i) ! j))))
   \<and> (\<exists>(s0 :: (unit, unit) Stats) mapper0 i j.
         int (length (Clients (Streams (Applications (snd (WithClientMapper mapper0 s0)) ! i) ! j)))
           < sint (NumClients (Streams (Applications (snd (WithClientMapper mapper0 s0)) ! i) ! j)))"
    unfolding Let_def by blast
  with shorter show ?thesis
    by blast
qed

text \<open>
  After the merge of the three test clients the stream still reports 3 clients and
  holds 2.
\<close>

theorem WithClientMapper_frame_witness:
  "snd (WithClientMapper combineSums merge_input)\<lparr>Applications := Applications merge_input\<rparr>
     = merge_input
   \<and> NumClients (Streams (Applications (snd (WithClientMapper combineSums merge_input)) ! 0) ! 0)
       = 3
   \<and> length (Clients (Streams (Applications (snd (WithClientMapper combineSums merge_input)) ! 0)
                          ! 0)) = 2"
proof -
  have "snd (WithClientMapper combineSums merge_input)\<lparr>Applications := Applications merge_input\<rparr>
     = merge_input"
    using WithClientMapper_frame [of combineSums merge_input] by (simp only: Let_def)
  moreover have "NumClients (Streams (Applications (snd (WithClientMapper combineSums merge_input))
                                        ! 0) ! 0) = 3"
    "length (Clients (Streams (Applications (snd (WithClientMapper combineSums merge_input)) ! 0)
                          ! 0)) = 2"
    by (simp_all add: merge_input_run)
  ultimately show ?thesis by simp
qed

section \<open>The publisher reported by the collector\<close>

lemma Collect_publisher_first:
  "(\<exists>k < length clients. Client.Publishing (clients ! k)
        \<and> (\<forall>l < k. \<not> Client.Publishing (clients ! l))
        \<and> Collect_publisher clients publisher = clients ! k)
   \<or> ((\<forall>cli \<in> set clients. \<not> Client.Publishing cli)
        \<and> Collect_publisher clients publisher = publisher)"
proof (induction clients)
  case Nil
  show ?case by simp
next
  case (Cons cli rest)
  show ?case
  proof (cases "Client.Publishing cli")
    case True
    then have "Client.Publishing ((cli # rest) ! 0)
        \<and> (\<forall>l < 0. \<not> Client.Publishing ((cli # rest) ! l))
        \<and> Collect_publisher (cli # rest) publisher = (cli # rest) ! 0"
      by simp
    then show ?thesis by blast
  next
    case False
    from Cons.IH show ?thesis
    proof
      assume "\<exists>k < length rest. Client.Publishing (rest ! k)
        \<and> (\<forall>l < k. \<not> Client.Publishing (rest ! l))
        \<and> Collect_publisher rest publisher = rest ! k"
      then obtain k where k: "k < length rest" "Client.Publishing (rest ! k)"
        "\<forall>l < k. \<not> Client.Publishing (rest ! l)" "Collect_publisher rest publisher = rest ! k"
        by blast
      have "\<forall>l < Suc k. \<not> Client.Publishing ((cli # rest) ! l)"
        using False k(3) by (simp add: nth_Cons split: nat.splits)
      with k(1,2,4) False have "Suc k < length (cli # rest)
        \<and> Client.Publishing ((cli # rest) ! Suc k)
        \<and> (\<forall>l < Suc k. \<not> Client.Publishing ((cli # rest) ! l))
        \<and> Collect_publisher (cli # rest) publisher = (cli # rest) ! Suc k"
        by simp
      then show ?thesis by blast
    next
      assume "(\<forall>cli \<in> set rest. \<not> Client.Publishing cli)
        \<and> Collect_publisher rest publisher = publisher"
      with False show ?thesis by simp
    qed
  qed
qed

lemma Collect_publisher_mem:
  "Collect_publisher clients publisher = publisher
   \<or> Collect_publisher clients publisher \<in> set clients"
  by (induction clients) auto

lemma send_sent:
  "m \<in> set (fst (send xs)) \<Longrightarrow> Inr m \<in> set xs"
proof (induction xs arbitrary: m rule: send.induct)
  case 1
  then show ?case by simp
next
  case (2 panic rest)
  then show ?case by simp
next
  case (3 m' rest)
  then show ?case by (cases "send rest") auto
qed

lemma send_total:
  "\<forall>x \<in> set xs. \<exists>m. x = Inr m \<Longrightarrow>
     snd (send xs) = None \<and> (\<forall>m. Inr m \<in> set xs \<longrightarrow> m \<in> set (fst (send xs)))"
proof (induction xs rule: send.induct)
  case 1
  show ?case by simp
next
  case (2 panic rest)
  then show ?case by simp
next
  case (3 m' rest)
  then show ?case by (cases "send rest") auto
qed

lemma ascii_ValidString:
  "\<forall>c \<in> set s. (of_char c :: nat) < 128 \<Longrightarrow> ValidString s"
proof (induction s)
  case Nil
  show ?case by (simp add: ValidString.simps)
next
  case (Cons c s)
  then show ?case by (subst ValidString.simps) simp
qed

lemma decimal_ascii:
  "\<forall>c \<in> set (decimal n). (of_char c :: nat) < 128"
proof (induction n rule: decimal.induct)
  case (1 n)
  show ?case
  proof (cases "n < 10")
    case True
    then show ?thesis by (subst decimal.simps) simp
  next
    case False
    have "(48 + n mod 10) mod 256 < 128"
      by simp
    with False 1 show ?thesis by (subst decimal.simps) simp
  qed
qed

lemma Sprintf_d_ascii:
  "\<forall>c \<in> set (Sprintf_d n). (of_char c :: nat) < 128"
  using decimal_ascii by (simp add: Sprintf_d_def)

lemma Sprintf_d_valid:
  "ValidString (Sprintf_d n)"
  "ValidString (Sprintf_d w @ ''x'' @ Sprintf_d h)"
  "ValidString (Sprintf_d w @ CHR ''x'' # Sprintf_d h)"
  using Sprintf_d_ascii by (auto intro!: ascii_ValidString)

lemma MustNewConstMetric_Inr:
  "Inr m = MustNewConstMetric d t v ls \<Longrightarrow> desc m = d \<and> labelValues m = ls"
  by (auto simp: MustNewConstMetric_def split: if_splits option.splits)

lemma MustNewConstMetric_valid:
  "length ls = length (variableLabels d) \<Longrightarrow> \<forall>l \<in> set ls. ValidString l \<Longrightarrow>
     MustNewConstMetric d t v ls = Inr \<lparr> desc = d, valueType = t, val = v, labelValues = ls \<rparr>"
  by (simp add: MustNewConstMetric_def find_None_iff split: option.splits)

lemma Collect_stream_labels:
  "Inr m \<in> set (Collect_stream app stream) \<Longrightarrow>
     take 3 (variableLabels (desc m)) = [''application'', ''stream'', ''publisher'']
   \<and> take 3 (labelValues m)
       = [Application.Name app, Stream.Name stream,
          ID (Collect_publisher (Clients stream) zero_Client)]"
  by (auto simp: Collect_stream_def Let_def streamUptimeSeconds_def
        streamBitrateIn_def streamBitrateOut_def streamRxTotal_def streamTxTotal_def
        streamClients_def streamInfo_def dest!: MustNewConstMetric_Inr)

lemma Collect_stream_valid:
  assumes "ValidString (Application.Name app)" and "ValidString (Stream.Name stream)"
    and "ValidString (VideoCodec stream)" and "ValidString (AudioCodec stream)"
    and "\<forall>cli \<in> set (Clients stream). ValidString (ID cli)"
  shows "\<exists>ms. Collect_stream app stream = map Inr ms \<and> length ms = 7"
proof -
  have "ValidString (ID zero_Client)"
    by (simp add: zero_Client_def ValidString.simps)
  with assms(5) Collect_publisher_mem [of "Clients stream" zero_Client]
  have pub: "ValidString (ID (Collect_publisher (Clients stream) zero_Client))"
    by auto
  have "\<exists>m1 m2 m3 m4 m5 m6 m7.
          Collect_stream app stream = [Inr m1, Inr m2, Inr m3, Inr m4, Inr m5, Inr m6, Inr m7]"
    using assms(1-4) pub
    by (simp add: Collect_stream_def Let_def MustNewConstMetric_valid Sprintf_d_valid
          streamUptimeSeconds_def streamBitrateIn_def streamBitrateOut_def streamRxTotal_def
          streamTxTotal_def streamClients_def streamInfo_def)
  then obtain m1 m2 m3 m4 m5 m6 m7 where
    "Collect_stream app stream = map Inr [m1, m2, m3, m4, m5, m6, m7]"
    by auto
  then show ?thesis
    by (intro exI [of _ "[m1, m2, m3, m4, m5, m6, m7]"]) simp
qed

lemma Collect_sent:
  assumes "m \<in> set (fst (Collect Time_String (Inr s)))"
    and "''publisher'' \<in> set (variableLabels (desc m))"
  shows "\<exists>app \<in> set (Applications s). \<exists>stream \<in> set (Streams app).
           Inr m \<in> set (Collect_stream app stream)"
proof -
  from assms(1) have "Inr m \<in> set
      ([ MustNewConstMetric nginxBuildInfo GaugeValue One
           [NGINXVersion s, NGINXRTMPVersion s, Compiler s, Time_String (Stats.Built s)],
         MustNewConstMetric serverBitrateIn GaugeValue (OfInt (Stats.BitrateIn s)) [],
         MustNewConstMetric serverBitrateOut GaugeValue (OfInt (Stats.BitrateOut s)) [],
         MustNewConstMetric serverRxTotal CounterValue (OfInt (Stats.BytesIn s)) [],
         MustNewConstMetric serverTxTotal CounterValue (OfInt (Stats.BytesOut s)) [] ]
       @ concat (map (\<lambda>app. concat (map (Collect_stream app) (Streams app)))
                   (Applications s)))"
    by (simp only: Collect_def sum.case send_sent)
  then consider
      (server) d t v ls where "Inr m = MustNewConstMetric d t v ls"
        "d \<in> {nginxBuildInfo, serverBitrateIn, serverBitrateOut, serverRxTotal, serverTxTotal}"
    | (stream) "Inr m \<in> set (concat (map (\<lambda>app. concat (map (Collect_stream app) (Streams app)))
                   (Applications s)))"
    by auto
  then show ?thesis
  proof cases
    case server
    from MustNewConstMetric_Inr [OF server(1)] have "desc m = d"
      by simp
    with server(2) have "''publisher'' \<notin> set (variableLabels (desc m))"
      by (auto simp: nginxBuildInfo_def serverBitrateIn_def serverBitrateOut_def
            serverRxTotal_def serverTxTotal_def)
    with assms(2) show ?thesis by simp
  next
    case stream
    then show ?thesis by auto
  qed
qed

lemma Collect_valid:
  assumes "labels_valid Time_String s"
  shows "snd (Collect Time_String (Inr s)) = None"
    and "app \<in> set (Applications s) \<Longrightarrow> stream \<in> set (Streams app) \<Longrightarrow>
         Inr m \<in> set (Collect_stream app stream) \<Longrightarrow>
         m \<in> set (fst (Collect Time_String (Inr s)))"
proof -
  let ?server = "[ MustNewConstMetric nginxBuildInfo GaugeValue One
           [NGINXVersion s, NGINXRTMPVersion s, Compiler s, Time_String (Stats.Built s)],
         MustNewConstMetric serverBitrateIn GaugeValue (OfInt (Stats.BitrateIn s)) [],
         MustNewConstMetric serverBitrateOut GaugeValue (OfInt (Stats.BitrateOut s)) [],
         MustNewConstMetric serverRxTotal CounterValue (OfInt (Stats.BytesIn s)) [],
         MustNewConstMetric serverTxTotal CounterValue (OfInt (Stats.BytesOut s)) [] ]"
  let ?streams = "concat (map (\<lambda>app. concat (map (Collect_stream app) (Streams app)))
                   (Applications s))"
  have run: "Collect Time_String (Inr s) = send (?server @ ?streams)"
    by (simp only: Collect_def sum.case)
  have server: "\<forall>x \<in> set ?server. \<exists>m. x = Inr m"
    using assms
    by (simp add: labels_valid_def MustNewConstMetric_valid nginxBuildInfo_def
          serverBitrateIn_def serverBitrateOut_def serverRxTotal_def serverTxTotal_def)
  have streams: "\<exists>m. x = Inr m" if "x \<in> set ?streams" for x
  proof -
    from that obtain app stream where mem: "app \<in> set (Applications s)"
      "stream \<in> set (Streams app)" "x \<in> set (Collect_stream app stream)"
      by auto
    from assms mem(1,2) have "ValidString (Application.Name app)"
      "ValidString (Stream.Name stream)" "ValidString (VideoCodec stream)"
      "ValidString (AudioCodec stream)" "\<forall>cli \<in> set (Clients stream). ValidString (ID cli)"
      by (auto simp: labels_valid_def)
    from Collect_stream_valid [OF this] mem(3) show ?thesis
      by auto
  qed
  from server streams have all: "\<forall>x \<in> set (?server @ ?streams). \<exists>m. x = Inr m"
    by (simp only: set_append Un_iff) blast
  from send_total [OF all] show "snd (Collect Time_String (Inr s)) = None"
    by (simp only: run)
  assume "app \<in> set (Applications s)" "stream \<in> set (Streams app)"
    "Inr m \<in> set (Collect_stream app stream)"
  then have "Inr m \<in> set (?server @ ?streams)"
    by auto
  with send_total [OF all] show "m \<in> set (fst (Collect Time_String (Inr s)))"
    by (simp only: run)
qed

text \<open>
  Claim C8. Every metric that \<^verbatim>\<open>Collect\<close> builds for a stream carries, as the value of
  its label \<^verbatim>\<open>publisher\<close> (the third label), the identifier of the first client of the
  stream's client list whose publishing flag is set, or the empty string when no client
  of the stream is publishing. Every metric with a label \<^verbatim>\<open>publisher\<close> that \<^verbatim>\<open>Collect\<close>
  sends is such a metric of some stream of the \<^verbatim>\<open>Stats\<close>, whether or not the run ends in
  a panic of \<^verbatim>\<open>MustNewConstMetric\<close>. When the strings of the \<^verbatim>\<open>Stats\<close> that become label
  values are valid UTF-8, there is no panic, and the seven metrics of the stream are
  built and sent.
\<close>

theorem Collect_reports_publisher:
  assumes "app \<in> set (Applications s)" and "stream \<in> set (Streams app)"
  shows "(\<forall>m. Inr m \<in> set (Collect_stream app stream) \<longrightarrow>
            variableLabels (desc m) ! 2 = ''publisher''
          \<and> ((\<exists>k < length (Clients stream).
                  Client.Publishing (Clients stream ! k)
                \<and> (\<forall>l < k. \<not> Client.Publishing (Clients stream ! l))
                \<and> labelValues m ! 2 = ID (Clients stream ! k))
             \<or> ((\<forall>cli \<in> set (Clients stream). \<not> Client.Publishing cli)
                \<and> labelValues m ! 2 = [])))
       \<and> (\<forall>m \<in> set (fst (Collect Time_String (Inr s))).
            ''publisher'' \<in> set (variableLabels (desc m)) \<longrightarrow>
            (\<exists>app' \<in> set (Applications s). \<exists>stream' \<in> set (Streams app').
               Inr m \<in> set (Collect_stream app' stream')))
       \<and> (labels_valid Time_String s \<longrightarrow>
            snd (Collect Time_String (Inr s)) = None
          \<and> (\<exists>ms. Collect_stream app stream = map Inr ms \<and> length ms = 7
                 \<and> set ms \<subseteq> set (fst (Collect Time_String (Inr s)))))"
proof -
  have built: "variableLabels (desc m) ! 2 = ''publisher''
          \<and> ((\<exists>k < length (Clients stream).
                  Client.Publishing (Clients stream ! k)
                \<and> (\<forall>l < k. \<not> Client.Publishing (Clients stream ! l))
                \<and> labelValues m ! 2 = ID (Clients stream ! k))
             \<or> ((\<forall>cli \<in> set (Clients stream). \<not> Client.Publishing cli)
                \<and> labelValues m ! 2 = []))"
    if m: "Inr m \<in> set (Collect_stream app stream)" for m
  proof -
    from Collect_stream_labels [OF m]
    have names: "take 3 (variableLabels (desc m)) = [''application'', ''stream'', ''publisher'']"
      and vals: "take 3 (labelValues m)
                   = [Application.Name app, Stream.Name stream,
                      ID (Collect_publisher (Clients stream) zero_Client)]"
      by simp_all
    have "variableLabels (desc m) ! 2 = take 3 (variableLabels (desc m)) ! 2"
      by simp
    then have name: "variableLabels (desc m) ! 2 = ''publisher''"
      by (simp only: names) simp
    have "labelValues m ! 2 = take 3 (labelValues m) ! 2"
      by simp
    then have val: "labelValues m ! 2 = ID (Collect_publisher (Clients stream) zero_Client)"
      by (simp only: vals) simp
    have zero: "ID zero_Client = []"
      by (simp add: zero_Client_def)
    from Collect_publisher_first [of "Clients stream" zero_Client]
    have "(\<exists>k < length (Clients stream).
                 Client.Publishing (Clients stream ! k)
               \<and> (\<forall>l < k. \<not> Client.Publishing (Clients stream ! l))
               \<and> labelValues m ! 2 = ID (Clients stream ! k))
            \<or> ((\<forall>cli \<in> set (Clients stream). \<not> Client.Publishing cli)
               \<and> labelValues m ! 2 = [])"
      unfolding val using zero by auto
    with name show ?thesis by blast
  qed
  have sent: "\<forall>m \<in> set (fst (Collect Time_String (Inr s))).
            ''publisher'' \<in> set (variableLabels (desc m)) \<longrightarrow>
            (\<exists>app' \<in> set (Applications s). \<exists>stream' \<in> set (Streams app').
               Inr m \<in> set (Collect_stream app' stream'))"
    using Collect_sent by blast
  have valid: "snd (Collect Time_String (Inr s)) = None
          \<and> (\<exists>ms. Collect_stream app stream = map Inr ms \<and> length ms = 7
                 \<and> set ms \<subseteq> set (fst (Collect Time_String (Inr s))))"
    if v: "labels_valid Time_String s"
  proof -
    from v assms have "ValidString (Application.Name app)"
      "ValidString (Stream.Name stream)" "ValidString (VideoCodec stream)"
      "ValidString (AudioCodec stream)" "\<forall>cli \<in> set (Clients stream). ValidString (ID cli)"
      by (auto simp: labels_valid_def)
    from Collect_stream_valid [OF this] obtain ms where
      ms: "Collect_stream app stream = map Inr ms" "length ms = 7"
      by blast
    have "m \<in> set (fst (Collect Time_String (Inr s)))" if "m \<in> set ms" for m
    proof -
      from that ms(1) have "Inr m \<in> set (Collect_stream app stream)"
        by simp
      from Collect_valid(2) [OF v assms this] show ?thesis .
    qed
    then have "set ms \<subseteq> set (fst (Collect Time_String (Inr s)))"
      by blast
    with ms Collect_valid(1) [OF v] show ?thesis
      by blast
  qed
  from built sent valid show ?thesis
    by blast
qed

text \<open>
  The clients \<open>[A, B, C]\<close> with \<open>B\<close> and \<open>C\<close> publishing: the five metrics of the server
  are followed by the seven metrics of the stream, and the reported publisher is \<open>B\<close>.
\<close>

theorem Collect_reports_publisher_witness:
  "publishing_app \<in> set (Applications publishers)
   \<and> publishing_stream \<in> set (Streams publishing_app)
   \<and> labels_valid no_time publishers
   \<and> snd (Collect no_time (Inr publishers)) = None
   \<and> map (\<lambda>m. labelValues m ! 2) (drop 5 (fst (Collect no_time (Inr publishers))))
       = [''B'', ''B'', ''B'', ''B'', ''B'', ''B'', ''B'']"
proof -
  have h1: "publishing_app \<in> set (Applications publishers)"
    and h2: "publishing_stream \<in> set (Streams publishing_app)"
    by (simp_all add: publishers_def publishing_app_def zero_Stats_def zero_Application_def)
  have ascii: "ValidString []" "ValidString ''live''" "ValidString ''stream''"
    "ValidString ''A''" "ValidString ''B''" "ValidString ''C''"
    by (simp_all add: ascii_ValidString)
  have h3: "labels_valid no_time publishers"
    using ascii
    by (simp add: labels_valid_def publishers_def publishing_app_def publishing_stream_def
          client_A_def client_B_def client_C_def zero_Stats_def zero_Application_def
          zero_Stream_def zero_Client_def no_time_def)
  from Collect_reports_publisher [OF h1 h2, of no_time] h3
  have none: "snd (Collect no_time (Inr publishers)) = None"
    by blast
  have labels: "map (\<lambda>m. labelValues m ! 2) (drop 5 (fst (Collect no_time (Inr publishers))))
                  = [''B'', ''B'', ''B'', ''B'', ''B'', ''B'', ''B'']"
    using ascii
    by (simp add: Collect_def Collect_stream_def Let_def MustNewConstMetric_valid
          Sprintf_d_valid publishers_def publishing_app_def publishing_stream_def
          client_A_def client_B_def client_C_def zero_Stats_def zero_Application_def
          zero_Stream_def zero_Client_def no_time_def
          nginxBuildInfo_def serverBitrateIn_def serverBitrateOut_def
          serverRxTotal_def serverTxTotal_def streamUptimeSeconds_def streamBitrateIn_def
          streamBitrateOut_def streamRxTotal_def streamTxTotal_def streamClients_def
          streamInfo_def)
  from h1 h2 h3 none labels show ?thesis
    by blast
qed

text \<open>
  A publisher whose identifier is the single byte \<^verbatim>\<open>0xFF\<close>: the five metrics of the
  server are sent, and the first metric of the stream panics.
\<close>

lemma Collect_invalid_publisher:
  "map (\<lambda>m. fqName (desc m)) (fst (Collect no_time (Inr invalid_publisher)))
     = [''rtmp_nginx_build_info'', ''rtmp_server_bitrate_in'', ''rtmp_server_bitrate_out'',
        ''rtmp_server_bytes_read_total'', ''rtmp_server_bytes_sent_total'']
   \<and> snd (Collect no_time (Inr invalid_publisher))
       = Some (InvalidLabelValue [char_of (255::nat)])"
proof -
  have ascii: "ValidString []" "ValidString ''live''" "ValidString ''stream''"
    by (simp_all add: ascii_ValidString)
  have bad: "\<not> ValidString [char_of (255::nat)]"
    by (simp add: ValidString.simps first_def)
  show ?thesis
    using ascii bad
    by (simp add: Collect_def Collect_stream_def Let_def MustNewConstMetric_def
          invalid_publisher_def client_A_def client_FF_def zero_Stats_def
          zero_Application_def zero_Stream_def zero_Client_def no_time_def
          nginxBuildInfo_def serverBitrateIn_def serverBitrateOut_def
          serverRxTotal_def serverTxTotal_def streamUptimeSeconds_def)
qed

section \<open>Decoding\<close>

lemma lookup_field_Perfect:
  "lookup_field tinfo parents name = Perfect decode \<Longrightarrow>
   \<exists>fparents. (fparents, name, decode) \<in> set tinfo \<and> length fparents = length parents"
  by (induction tinfo parents name rule: lookup_field.induct) (auto split: if_splits)

lemma lookup_field_Descend:
  "lookup_field tinfo parents name = Descend parents' \<Longrightarrow> parents' \<noteq> []"
  by (induction tinfo parents name rule: lookup_field.induct) (auto split: if_splits)

lemma keeps_unmarshalPath:
  fixes tinfo :: "'s field list"
  shows "keeps P X tinfo \<Longrightarrow> P sv \<Longrightarrow> parents \<noteq> [] \<or> element_names [nd] \<inter> X = {} \<Longrightarrow>
         unmarshalPath tinfo parents nd sv = Inr sv' \<Longrightarrow> P sv'"
    and "keeps P X tinfo \<Longrightarrow> P sv \<Longrightarrow> parents \<noteq> [] \<or> element_names nds \<inter> X = {} \<Longrightarrow>
         unmarshalPath_tokens tinfo parents nds sv = Inr sv' \<Longrightarrow> P sv'"
proof (induction tinfo parents nd sv and tinfo parents nds sv
       arbitrary: sv' and sv' rule: unmarshalPath_unmarshalPath_tokens.induct)
  case (1 tinfo parents chars sv)
  then show ?case by simp
next
  case (2 tinfo parents name body sv)
  show ?case
  proof (cases "lookup_field tinfo parents name")
    case (Perfect decode)
    from lookup_field_Perfect [OF Perfect] obtain fparents where
      f: "(fparents, name, decode) \<in> set tinfo" "length fparents = length parents"
      by blast
    have "\<not> (fparents = [] \<and> name \<in> X)"
      using "2.prems"(3) f(2) by auto
    with "2.prems"(1) f(1) have "\<forall>body sv sv'. P sv \<longrightarrow> decode body sv = Inr sv' \<longrightarrow> P sv'"
      unfolding keeps_def by fastforce
    with "2.prems"(2,4) Perfect show ?thesis by simp
  next
    case (Descend parents')
    from lookup_field_Descend [OF Descend] have "parents' \<noteq> []" .
    with "2.IH" [OF Descend "2.prems"(1,2)] "2.prems"(4) Descend show ?thesis by simp
  next
    case Skip
    with "2.prems" show ?thesis by simp
  qed
next
  case (3 tinfo parents sv)
  then show ?case by simp
next
  case (4 tinfo parents nd nds sv)
  from "4.prems"(4) obtain sv1 where
    one: "unmarshalPath tinfo parents nd sv = Inr sv1"
    and rest: "unmarshalPath_tokens tinfo parents nds sv1 = Inr sv'"
    by (auto split: sum.splits)
  have a: "parents \<noteq> [] \<or> element_names [nd] \<inter> X = {}"
    using "4.prems"(3) by (cases nd) auto
  have b: "parents \<noteq> [] \<or> element_names nds \<inter> X = {}"
    using "4.prems"(3) by (cases nd) auto
  have "P sv1"
    by (rule "4.IH"(1) [OF "4.prems"(1,2) a one])
  from "4.IH"(2) [OF one "4.prems"(1) this b rest] show ?case .
qed

lemma keeps_struct:
  "keeps P X tinfo \<Longrightarrow> P zero \<Longrightarrow> element_names body \<inter> X = {} \<Longrightarrow>
   unmarshal_struct tinfo zero body = Inr sv \<Longrightarrow> P sv"
  unfolding unmarshal_struct_def by (rule keeps_unmarshalPath(2)) auto

lemma unmarshalPath_tokens_append:
  "unmarshalPath_tokens tinfo parents (xs @ ys) sv =
     (case unmarshalPath_tokens tinfo parents xs sv of
        Inl err \<Rightarrow> Inl err
      | Inr sv' \<Rightarrow> unmarshalPath_tokens tinfo parents ys sv')"
  by (induction xs arbitrary: sv) (auto split: sum.splits)

lemma element_body_None:
  "element_body name nds = None \<Longrightarrow> name \<notin> element_names nds"
  by (induction nds rule: element_names.induct) (auto split: option.splits if_splits)

lemma element_body_split:
  "element_body name nds = Some body \<Longrightarrow>
   \<exists>pre post. nds = pre @ Element name body # post \<and> name \<notin> element_names post"
proof (induction nds)
  case Nil
  then show ?case by simp
next
  case (Cons nd nds)
  show ?case
  proof (cases nd)
    case (CharData chars)
    with Cons.prems have "element_body name nds = Some body" by simp
    from Cons.IH [OF this] obtain pre post where
      "nds = pre @ Element name body # post" "name \<notin> element_names post"
      by blast
    then have "nd # nds = (nd # pre) @ Element name body # post" by simp
    with \<open>name \<notin> element_names post\<close> show ?thesis by blast
  next
    case (Element n b)
    show ?thesis
    proof (cases "element_body name nds")
      case (Some later)
      with Cons.prems Element have "element_body name nds = Some body" by simp
      from Cons.IH [OF this] obtain pre post where
        "nds = pre @ Element name body # post" "name \<notin> element_names post"
        by blast
      then have "nd # nds = (nd # pre) @ Element name body # post" by simp
      with \<open>name \<notin> element_names post\<close> show ?thesis by blast
    next
      case None
      with Cons.prems Element have nb: "n = name" "b = body"
        by (simp_all split: if_splits)
      have "name \<notin> element_names nds"
        using None by (rule element_body_None)
      with Element nb have "nd # nds = [] @ Element name body # nds" by simp
      with \<open>name \<notin> element_names nds\<close> show ?thesis by blast
    qed
  qed
qed

lemma element_names_iff:
  "name \<in> element_names nds \<longleftrightarrow> (\<exists>body. Element name body \<in> set nds)"
  by (induction nds rule: element_names.induct) auto

lemma field_keeps:
  "(\<And>body v sv. decode body = Inr v \<Longrightarrow> P sv \<Longrightarrow> P (store v sv)) \<Longrightarrow>
   case field fparents fname decode store of
     (fparents, fname, dec) \<Rightarrow>
       (fparents = [] \<and> fname \<in> X) \<or> (\<forall>body sv sv'. P sv \<longrightarrow> dec body sv = Inr sv' \<longrightarrow> P sv')"
  by (auto simp: field_def split: sum.splits)

lemma field_excluded:
  "fname \<in> X \<Longrightarrow>
   case field [] fname decode store of
     (fparents, fname, dec) \<Rightarrow>
       (fparents = [] \<and> fname \<in> X) \<or> (\<forall>body sv sv'. P sv \<longrightarrow> dec body sv = Inr sv' \<longrightarrow> P sv')"
  by (simp add: field_def)

lemma Client_UnmarshalXML_EntriesCount:
  "Client_UnmarshalXML body = Inr c \<Longrightarrow> EntriesCount c = 1"
  by (auto simp: Client_UnmarshalXML_def split: sum.splits)

lemma Stream_fields_keep_counts:
  "keeps (\<lambda>sv. \<forall>c \<in> set (Clients (Stream_stats.plain sv)). EntriesCount c = 1) {}
     (Stream_fields lib)"
  unfolding keeps_def Stream_fields_def
  by (simp only: list.set ball_simps insert_iff, intro conjI field_keeps)
     (auto dest: Client_UnmarshalXML_EntriesCount)

lemma Stream_UnmarshalXML_EntriesCount:
  assumes "Stream_UnmarshalXML lib body = Inr stream"
  shows "\<forall>c \<in> set (Clients stream). EntriesCount c = 1"
proof -
  from assms obtain stats where
    stats: "unmarshal_struct (Stream_fields lib) (zero_Stream_stats lib) body = Inr stats"
    and stream: "Clients stream = Clients (Stream_stats.plain stats)"
    by (auto simp: Stream_UnmarshalXML_def split: sum.splits)
  have "\<forall>c \<in> set (Clients (Stream_stats.plain stats)). EntriesCount c = 1"
    by (rule keeps_struct [OF Stream_fields_keep_counts _ _ stats])
       (simp_all add: zero_Stream_stats_def zero_Stream_def)
  with stream show ?thesis by simp
qed

lemma Application_fields_keep_counts:
  "keeps (\<lambda>app. \<forall>stream \<in> set (Streams app). \<forall>c \<in> set (Clients stream). EntriesCount c = 1) {}
     (Application_fields lib)"
  unfolding keeps_def Application_fields_def
  by (simp only: list.set ball_simps insert_iff, intro conjI field_keeps)
     (auto dest: Stream_UnmarshalXML_EntriesCount)

lemma unmarshal_Application_EntriesCount:
  assumes "unmarshal_Application lib body = Inr app"
  shows "\<forall>stream \<in> set (Streams app). \<forall>c \<in> set (Clients stream). EntriesCount c = 1"
  by (rule keeps_struct [OF Application_fields_keep_counts _ _ assms [unfolded unmarshal_Application_def]])
     (simp_all add: zero_Application_def)

lemma Stats_fields_keep_counts:
  "keeps (\<lambda>sv. \<forall>app \<in> set (Applications (Stats_stats.plain sv)).
                 \<forall>stream \<in> set (Streams app). \<forall>c \<in> set (Clients stream). EntriesCount c = 1) {}
     (Stats_fields lib)"
  unfolding keeps_def Stats_fields_def
  by (simp only: list.set ball_simps insert_iff, intro conjI field_keeps)
     (auto dest: unmarshal_Application_EntriesCount)

lemma Stats_UnmarshalXML_EntriesCount:
  assumes "Stats_UnmarshalXML lib body = Inr s"
  shows "\<forall>app \<in> set (Applications s). \<forall>stream \<in> set (Streams app).
           \<forall>c \<in> set (Clients stream). EntriesCount c = 1"
proof -
  from assms obtain stats where
    stats: "unmarshal_struct (Stats_fields lib) (zero_Stats_stats lib) body = Inr stats"
    and s: "Applications s = Applications (Stats_stats.plain stats)"
    by (auto simp: Stats_UnmarshalXML_def split: sum.splits)
  have "\<forall>app \<in> set (Applications (Stats_stats.plain stats)).
          \<forall>stream \<in> set (Streams app). \<forall>c \<in> set (Clients stream). EntriesCount c = 1"
    by (rule keeps_struct [OF Stats_fields_keep_counts _ _ stats])
       (simp_all add: zero_Stats_stats_def zero_Stats_def)
  with s show ?thesis by simp
qed

lemma Decode_root:
  "Decode lib r = Inr s \<Longrightarrow> \<exists>body. Stats_UnmarshalXML lib body = Inr s"
  by (induction lib r rule: Decode.induct) auto

lemmas decode_defs =
  Unmarshal_def Stats_UnmarshalXML_def Stream_UnmarshalXML_def Client_UnmarshalXML_def
  unmarshal_Application_def unmarshal_struct_def
  Stats_fields_def Application_fields_def Stream_fields_def Client_fields_def Decoder_fields_def
  field_def zero_Stats_stats_def zero_Stream_stats_def zero_Client_stats_def NewDecoder_def
  Boolean_UnmarshalXML_def Duration_UnmarshalXML_def Time_UnmarshalXML_def unknown_type_def
  unmarshal_string_def unmarshal_int_def unmarshal_bool_def unmarshal_float64_def
  TrimSpace_def TrimLeft.simps space_runes_def ParseInt_def ParseUint_def ParseBool_def
  is_digit_def digit_value_def

lemma clients_doc_run: "Unmarshal unit_lib clients_doc [] = Inr clients_doc_stats"
  by (simp add: decode_defs clients_doc_def clients_doc_stats_def unit_lib_def
        zero_Stats_def zero_Application_def zero_Stream_def zero_Client_def
        int64_div_def Millisecond_def Second_def)

lemma uptime_doc_run:
  "Unmarshal unit_lib (uptime_doc ''93879500'') []
     = Inr ((zero_Stats ())\<lparr>NGINXVersion := ''1.19.0'', Stats.Uptime := 93879500 * Second,
                             Accepted := 11\<rparr>)"
  by (simp add: decode_defs uptime_doc_def unit_lib_def zero_Stats_def
        int64_div_def Millisecond_def Second_def)

lemma int64_div_Millisecond:
  assumes "- 9223372036854 \<le> sint w" and "sint w \<le> 9223372036854"
  shows "int64_div (Millisecond * w) Millisecond = w"
proof -
  have "sint (Millisecond * w) = signed_take_bit 63 (1000000 * sint w)"
    by (simp add: Millisecond_def sint_word_ariths)
  also have "\<dots> = 1000000 * sint w"
    using assms by (intro signed_take_bit_int_eq_self) simp_all
  finally have "sint (Millisecond * w) sdiv sint Millisecond = sint w"
    by (simp add: Millisecond_def signed_divide_int_def sgn_mult abs_mult sgn_mult_abs)
  then show ?thesis
    by (simp add: int64_div_def)
qed

lemma sint_seconds:
  assumes "- 9223372036 \<le> sint w" and "sint w \<le> 9223372036"
  shows "sint (w * Second) = sint w * 1000000000"
proof -
  have "sint (w * Second) = signed_take_bit 63 (sint w * 1000000000)"
    by (simp add: Second_def sint_word_ariths)
  also have "\<dots> = sint w * 1000000000"
    using assms by (intro signed_take_bit_int_eq_self) simp_all
  finally show ?thesis .
qed

lemma Stats_fields_keep_uptime:
  "keeps (\<lambda>sv. Stats_stats.Uptime sv = d) {''uptime''} (Stats_fields lib)"
  unfolding keeps_def Stats_fields_def
  by (simp only: list.set ball_simps simp_thms,
      (intro conjI; ((rule field_excluded, (simp; fail)) | (rule field_keeps, simp))))

lemma Stats_uptime_element:
  "unmarshalPath (Stats_fields lib) [] (Element ''uptime'' body) sv =
     (case Duration_UnmarshalXML body of
        Inl err \<Rightarrow> Inl err
      | Inr d \<Rightarrow> Inr (sv\<lparr>Stats_stats.Uptime := d\<rparr>))"
  by (simp add: Stats_fields_def field_def)

lemma Stats_stats_uptime:
  assumes "unmarshal_struct (Stats_fields lib) zero body = Inr stats"
    and "element_body ''uptime'' body = Some ub"
    and "unmarshal_int ub = Inr w"
  shows "Stats_stats.Uptime stats = Millisecond * w"
proof -
  from element_body_split [OF assms(2)] obtain pre post where
    body: "body = pre @ Element ''uptime'' ub # post"
    and post: "''uptime'' \<notin> element_names post"
    by blast
  let ?tinfo = "Stats_fields lib"
  from assms(1) have run: "unmarshalPath_tokens ?tinfo [] (pre @ Element ''uptime'' ub # post) zero
                             = Inr stats"
    by (simp add: unmarshal_struct_def body)
  then obtain sv1 where
    rest: "unmarshalPath_tokens ?tinfo [] (Element ''uptime'' ub # post) sv1 = Inr stats"
    by (auto simp: unmarshalPath_tokens_append split: sum.splits)
  have d: "Duration_UnmarshalXML ub = Inr (Millisecond * w)"
    using assms(3) by (simp add: Duration_UnmarshalXML_def)
  from rest have after: "unmarshalPath_tokens ?tinfo [] post
                           (sv1\<lparr>Stats_stats.Uptime := Millisecond * w\<rparr>) = Inr stats"
    by (simp only: unmarshalPath_tokens.simps Stats_uptime_element d sum.case)
  show ?thesis
    by (rule keeps_unmarshalPath(2) [OF Stats_fields_keep_uptime _ _ after])
       (use post in simp_all)
qed

lemma Stats_UnmarshalXML_Uptime:
  assumes "Stats_UnmarshalXML lib body = Inr s"
    and "element_body ''uptime'' body = Some ub"
    and "unmarshal_int ub = Inr w"
  shows "Stats.Uptime s = int64_div (Millisecond * w) Millisecond * Second"
proof -
  from assms(1) obtain stats where
    stats: "unmarshal_struct (Stats_fields lib) (zero_Stats_stats lib) body = Inr stats"
    and s: "Stats.Uptime s = int64_div (Stats_stats.Uptime stats) Millisecond * Second"
    by (auto simp: Stats_UnmarshalXML_def split: sum.splits)
  from Stats_stats_uptime [OF stats assms(2,3)] s show ?thesis by simp
qed

lemma Decoder_untouched_examples:
  "Decoder_untouched clients_doc" "Decoder_untouched (uptime_doc uptime)"
  "\<not> Decoder_untouched lenient_doc"
  by (simp_all add: Decoder_untouched_def clients_doc_def uptime_doc_def lenient_doc_def)

text \<open>
  Claim C1, as the code has it. Take a document in which no presence element writes an
  option of the decoder, so that the document is read as its tree of elements. When the
  element \<^verbatim>\<open>uptime\<close> of the document holds the integer \<open>w\<close>, the duration adapter reads it
  as \<open>w\<close> milliseconds and \<^verbatim>\<open>Stats.UnmarshalXML\<close> divides that duration by a millisecond
  and multiplies it by a second: as long as \<open>w\<close> milliseconds fit an \<^verbatim>\<open>int64\<close> of
  nanoseconds, \<^verbatim>\<open>Stats.Uptime\<close> is \<open>w\<close> times a second, and for \<open>w\<close> up to 9223372036 in
  absolute value that is exactly \<open>w\<close> seconds. The integer on the wire is a number of
  seconds; nothing is floored.
\<close>

theorem Stats_UnmarshalXML_uptime_seconds:
  assumes "Stats_UnmarshalXML lib body = Inr s"
    and "element_body ''uptime'' body = Some ub"
    and "unmarshal_int ub = Inr w"
    and "Decoder_untouched body"
  shows "Stats.Uptime s = int64_div (Millisecond * w) Millisecond * Second
       \<and> (- 9223372036854 \<le> sint w \<and> sint w \<le> 9223372036854
            \<longrightarrow> Stats.Uptime s = w * Second)
       \<and> (- 9223372036 \<le> sint w \<and> sint w \<le> 9223372036
            \<longrightarrow> sint (Stats.Uptime s) = sint w * 1000000000)"
proof -
  have u: "Stats.Uptime s = int64_div (Millisecond * w) Millisecond * Second"
    by (rule Stats_UnmarshalXML_Uptime [OF assms(1-3)])
  have a: "Stats.Uptime s = w * Second"
    if "- 9223372036854 \<le> sint w \<and> sint w \<le> 9223372036854"
    using that by (simp add: u int64_div_Millisecond)
  have b: "sint (Stats.Uptime s) = sint w * 1000000000"
    if "- 9223372036 \<le> sint w \<and> sint w \<le> 9223372036"
    using that by (simp add: a sint_seconds)
  from u a b show ?thesis by blast
qed

text \<open>
  The uptime of the package's test, 93879 seconds, comes from the wire value 93879.
\<close>

theorem Stats_UnmarshalXML_uptime_seconds_witness:
  "Decode unit_lib (uptime_doc ''93879'')
     = Inr ((zero_Stats ())\<lparr>NGINXVersion := ''1.19.0'', Stats.Uptime := 93879 * Second,
                             Accepted := 11\<rparr>)
   \<and> element_body ''uptime'' (case hd (uptime_doc ''93879'') of Element name body \<Rightarrow> body)
       = Some [CharData ''93879'']
   \<and> unmarshal_int [CharData ''93879''] = Inr 93879
   \<and> Decoder_untouched (case hd (uptime_doc ''93879'') of Element name body \<Rightarrow> body)
   \<and> sint (93879 * Second) = 93879 * 1000000000"
proof -
  let ?s = "(zero_Stats ())\<lparr>NGINXVersion := ''1.19.0'', Stats.Uptime := 93879 * Second,
                             Accepted := 11\<rparr> :: (unit, unit) Stats"
  let ?body = "case hd (uptime_doc ''93879'') of Element name body \<Rightarrow> body"
  have run: "Stats_UnmarshalXML unit_lib ?body = Inr ?s"
    by (simp add: decode_defs uptime_doc_def unit_lib_def zero_Stats_def
          int64_div_def Millisecond_def Second_def)
  have dec: "Decode unit_lib (uptime_doc ''93879'') = Inr ?s"
    using run by (simp add: uptime_doc_def)
  have field: "element_body ''uptime'' ?body = Some [CharData ''93879'']"
    by (simp add: uptime_doc_def)
  have w: "unmarshal_int [CharData ''93879''] = Inr 93879"
    by (simp add: decode_defs)
  have plain: "Decoder_untouched ?body"
    by (simp add: Decoder_untouched_def uptime_doc_def)
  from Stats_UnmarshalXML_uptime_seconds [OF run field w plain]
  have "- 9223372036 \<le> sint (93879 :: 64 word) \<and> sint (93879 :: 64 word) \<le> 9223372036
          \<longrightarrow> sint (Stats.Uptime ?s) = sint (93879 :: 64 word) * 1000000000"
    by blast
  then have "sint (93879 * Second) = 93879 * 1000000000"
    by simp
  with dec field w plain show ?thesis by simp
qed

text \<open>
  Claim C1 as stated fails: the wire value 93879500 decodes to 93879500 seconds, not to
  93879 seconds.
\<close>

theorem Stats_uptime_floor_counterexample:
  "Unmarshal unit_lib (uptime_doc ''93879500'') []
     = Inr ((zero_Stats ())\<lparr>NGINXVersion := ''1.19.0'', Stats.Uptime := 93879500 * Second,
                             Accepted := 11\<rparr>)
   \<and> sint (93879500 * Second) = 93879500 * 1000000000
   \<and> (93879500 * Second :: Duration) \<noteq> 93879 * Second"
  by (simp add: uptime_doc_run) (simp add: Second_def)

text \<open>
  Claim C6. Every client of a successfully decoded document has \<^verbatim>\<open>EntriesCount = 1\<close>
  before any mutator runs, whatever the document holds.
\<close>

theorem Unmarshal_EntriesCount:
  assumes "Unmarshal lib r [] = Inr s"
  shows "\<forall>app \<in> set (Applications s). \<forall>stream \<in> set (Streams app).
           \<forall>client \<in> set (Clients stream). EntriesCount client = 1"
proof -
  from assms have "Decode lib r = Inr s"
    by (simp add: Unmarshal_def split: sum.splits)
  from Decode_root [OF this] obtain body where "Stats_UnmarshalXML lib body = Inr s"
    by blast
  then show ?thesis
    by (rule Stats_UnmarshalXML_EntriesCount)
qed

text \<open>
  A document with two clients, one of which carries an element \<^verbatim>\<open>EntriesCount\<close> holding 5:
  both are decoded with \<^verbatim>\<open>EntriesCount = 1\<close>.
\<close>

theorem Unmarshal_EntriesCount_witness:
  "Unmarshal unit_lib clients_doc [] = Inr clients_doc_stats
   \<and> map EntriesCount (Clients (hd (Streams (hd (Applications clients_doc_stats))))) = [1, 1]"
proof -
  have "map EntriesCount (Clients (hd (Streams (hd (Applications clients_doc_stats))))) = [1, 1]"
    using Unmarshal_EntriesCount [OF clients_doc_run]
    by (simp add: clients_doc_stats_def zero_Stats_def zero_Application_def)
  with clients_doc_run show ?thesis by simp
qed

lemma Boolean_UnmarshalXML_True:
  "Boolean_UnmarshalXML body = Inr v \<Longrightarrow> v"
  by (auto simp: Boolean_UnmarshalXML_def split: sum.splits)

lemma presence:
  assumes run: "unmarshal_struct tinfo zero body = Inr sv"
    and absent: "keeps (\<lambda>sv. \<not> flag sv) {name} tinfo"
    and present: "keeps flag {} tinfo"
    and element: "\<And>b sv. unmarshalPath tinfo [] (Element name b) sv =
                   (case Boolean_UnmarshalXML b of
                      Inl err \<Rightarrow> Inl err
                    | Inr v \<Rightarrow> Inr (store v sv))"
    and store: "\<And>sv. flag (store True sv)"
    and zero: "\<not> flag zero"
  shows "flag sv \<longleftrightarrow> name \<in> element_names body"
proof (cases "name \<in> element_names body")
  case False
  have "\<not> flag sv"
    by (rule keeps_struct [OF absent zero _ run]) (use False in simp)
  with False show ?thesis by simp
next
  case True
  then obtain b where "Element name b \<in> set body"
    by (auto simp: element_names_iff)
  then obtain pre post where body: "body = pre @ Element name b # post"
    by (auto dest: split_list)
  from run have "unmarshalPath_tokens tinfo [] (pre @ Element name b # post) zero = Inr sv"
    by (simp add: unmarshal_struct_def body)
  then obtain sv1 where
    rest: "unmarshalPath_tokens tinfo [] (Element name b # post) sv1 = Inr sv"
    by (auto simp: unmarshalPath_tokens_append split: sum.splits)
  then obtain v where v: "Boolean_UnmarshalXML b = Inr v"
    and after: "unmarshalPath_tokens tinfo [] post (store v sv1) = Inr sv"
    by (simp only: unmarshalPath_tokens.simps element) (auto split: sum.splits)
  from Boolean_UnmarshalXML_True [OF v] have "flag (store v sv1)"
    by (simp add: store)
  have "flag sv"
    by (rule keeps_unmarshalPath(2) [OF present \<open>flag (store v sv1)\<close> _ after]) simp
  with True show ?thesis by simp
qed

text \<open>
  On every record that is decoded, and whose presence elements write no option of the
  decoder, the presence flags are set exactly when an element of that name is among the
  children of the record.
\<close>

lemma Client_UnmarshalXML_presence:
  assumes run: "Client_UnmarshalXML body = Inr c"
    and plain: "Decoder_untouched body"
  shows "Client.Active c \<longleftrightarrow> ''active'' \<in> element_names body"
    and "Client.Publishing c \<longleftrightarrow> ''publishing'' \<in> element_names body"
proof -
  from run obtain stats where
    stats: "unmarshal_struct Client_fields zero_Client_stats body = Inr stats"
    and c: "Client.Active c = Client_stats.Active stats"
           "Client.Publishing c = Client_stats.Publishing stats"
    by (auto simp: Client_UnmarshalXML_def split: sum.splits)
  have "Client_stats.Active stats \<longleftrightarrow> ''active'' \<in> element_names body"
  proof (rule presence [OF stats, where store = "\<lambda>v s. s\<lparr>Client_stats.Active := v\<rparr>"])
    show "keeps (\<lambda>sv. \<not> Client_stats.Active sv) {''active''} Client_fields"
      unfolding keeps_def Client_fields_def
      by (simp only: list.set ball_simps simp_thms,
          (intro conjI; ((rule field_excluded, (simp; fail)) | (rule field_keeps, simp))))
    show "keeps Client_stats.Active {} Client_fields"
      unfolding keeps_def Client_fields_def
      by (simp only: list.set ball_simps simp_thms,
          (intro conjI; (rule field_keeps, auto dest: Boolean_UnmarshalXML_True)))
  qed (simp_all add: Client_fields_def field_def zero_Client_stats_def)
  moreover have "Client_stats.Publishing stats \<longleftrightarrow> ''publishing'' \<in> element_names body"
  proof (rule presence [OF stats, where store = "\<lambda>v s. s\<lparr>Client_stats.Publishing := v\<rparr>"])
    show "keeps (\<lambda>sv. \<not> Client_stats.Publishing sv) {''publishing''} Client_fields"
      unfolding keeps_def Client_fields_def
      by (simp only: list.set ball_simps simp_thms,
          (intro conjI; ((rule field_excluded, (simp; fail)) | (rule field_keeps, simp))))
    show "keeps Client_stats.Publishing {} Client_fields"
      unfolding keeps_def Client_fields_def
      by (simp only: list.set ball_simps simp_thms,
          (intro conjI; (rule field_keeps, auto dest: Boolean_UnmarshalXML_True)))
  qed (simp_all add: Client_fields_def field_def zero_Client_stats_def)
  ultimately show "Client.Active c \<longleftrightarrow> ''active'' \<in> element_names body"
    and "Client.Publishing c \<longleftrightarrow> ''publishing'' \<in> element_names body"
    using c by simp_all
qed

lemma Stream_UnmarshalXML_presence:
  assumes run: "Stream_UnmarshalXML lib body = Inr stream"
    and plain: "Decoder_untouched body"
  shows "Stream.Active stream \<longleftrightarrow> ''active'' \<in> element_names body"
    and "Stream.Publishing stream \<longleftrightarrow> ''publishing'' \<in> element_names body"
proof -
  from run obtain stats where
    stats: "unmarshal_struct (Stream_fields lib) (zero_Stream_stats lib) body = Inr stats"
    and c: "Stream.Active stream = Stream_stats.Active stats"
           "Stream.Publishing stream = Stream_stats.Publishing stats"
    by (auto simp: Stream_UnmarshalXML_def split: sum.splits)
  have "Stream_stats.Active stats \<longleftrightarrow> ''active'' \<in> element_names body"
  proof (rule presence [OF stats, where store = "\<lambda>v s. s\<lparr>Stream_stats.Active := v\<rparr>"])
    show "keeps (\<lambda>sv. \<not> Stream_stats.Active sv) {''active''} (Stream_fields lib)"
      unfolding keeps_def Stream_fields_def
      by (simp only: list.set ball_simps simp_thms,
          (intro conjI; ((rule field_excluded, (simp; fail)) | (rule field_keeps, simp))))
    show "keeps Stream_stats.Active {} (Stream_fields lib)"
      unfolding keeps_def Stream_fields_def
      by (simp only: list.set ball_simps simp_thms,
          (intro conjI; (rule field_keeps, auto dest: Boolean_UnmarshalXML_True)))
  qed (simp_all add: Stream_fields_def field_def zero_Stream_stats_def)
  moreover have "Stream_stats.Publishing stats \<longleftrightarrow> ''publishing'' \<in> element_names body"
  proof (rule presence [OF stats, where store = "\<lambda>v s. s\<lparr>Stream_stats.Publishing := v\<rparr>"])
    show "keeps (\<lambda>sv. \<not> Stream_stats.Publishing sv) {''publishing''} (Stream_fields lib)"
      unfolding keeps_def Stream_fields_def
      by (simp only: list.set ball_simps simp_thms,
          (intro conjI; ((rule field_excluded, (simp; fail)) | (rule field_keeps, simp))))
    show "keeps Stream_stats.Publishing {} (Stream_fields lib)"
      unfolding keeps_def Stream_fields_def
      by (simp only: list.set ball_simps simp_thms,
          (intro conjI; (rule field_keeps, auto dest: Boolean_UnmarshalXML_True)))
  qed (simp_all add: Stream_fields_def field_def zero_Stream_stats_def)
  ultimately show "Stream.Active stream \<longleftrightarrow> ''active'' \<in> element_names body"
    and "Stream.Publishing stream \<longleftrightarrow> ''publishing'' \<in> element_names body"
    using c by simp_all
qed

text \<open>
  Claim C5. A client record with an \<^verbatim>\<open>active\<close> element decodes with \<^verbatim>\<open>Active = true\<close>
  when the element is empty or holds character data, and the fields around it are
  decoded as usual. But the content of the element is decoded into the decoder itself:
  with a child element \<^verbatim>\<open>Entity\<close> the whole record fails with
  \<^verbatim>\<open>unknown type map[string]string\<close>, and with a child element \<^verbatim>\<open>Strict\<close> that holds no
  boolean it fails with a syntax error. The content of the tag does decide whether the
  surrounding record is decoded.
\<close>

theorem Boolean_UnmarshalXML_content:
  "Client_UnmarshalXML (active_client [])
     = Inr (zero_Client\<lparr>ID := ''7'', Address := ''1.1.1.1'', Client.Active := True,
                         EntriesCount := 1\<rparr>)
   \<and> Client_UnmarshalXML (active_client [CharData ''no''])
     = Inr (zero_Client\<lparr>ID := ''7'', Address := ''1.1.1.1'', Client.Active := True,
                         EntriesCount := 1\<rparr>)
   \<and> Client_UnmarshalXML (active_client [Element ''Entity'' []])
     = Inl (UnknownType ''map[string]string'')
   \<and> Client_UnmarshalXML (active_client [Element ''Strict'' [CharData ''x'']])
     = Inl (SyntaxError ''x'')"
  by (simp add: decode_defs active_client_def zero_Client_def)

end
